theory Spec2Isabelle
  imports Main "HOL-Library.AList"
begin

section \<open>Python values, errors and results\<close>

text \<open>
  The program is a single Python module, \<^verbatim>\<open>study_notes_pyqt.py\<close>. Exceptions are
  values of \<open>error\<close>; a computation that may raise returns \<open>error + 'a\<close> with \<open>Inl\<close>
  the exception.
\<close>

datatype error = ValueError | OverflowError | KeyError | PermissionError

definition bind_result :: "error + 'a \<Rightarrow> ('a \<Rightarrow> error + 'b) \<Rightarrow> error + 'b" where
  "bind_result r f = (case r of Inl e \<Rightarrow> Inl e | Inr x \<Rightarrow> f x)"

text \<open>
  The \<^verbatim>\<open>completed\<close> entry of a revision comes from a JSON document, and the code reads
  it with \<^verbatim>\<open>.get("completed")\<close>: the key may be absent (\<open>None\<close> below) and the value is
  used for its truth value. The scalar JSON values are modelled; floats, lists and
  objects as flag values are outside the model.
\<close>

datatype pyval = PNone | PBool bool | PInt int | PStr string

fun truth :: "pyval \<Rightarrow> bool" where
  "truth PNone = False"
| "truth (PBool b) = b"
| "truth (PInt i) = (i \<noteq> 0)"
| "truth (PStr s) = (s \<noteq> [])"

text \<open>\<^verbatim>\<open>r.get("completed")\<close> used as a condition: an absent key gives \<^verbatim>\<open>None\<close>, which is false.\<close>

definition get_completed :: "pyval option \<Rightarrow> bool" where
  "get_completed v = (case v of None \<Rightarrow> False | Some x \<Rightarrow> truth x)"

section \<open>The datetime library: calendar dates\<close>

text \<open>
  \<^verbatim>\<open>datetime\<close> is Python's standard library. A date is (year, month, day) in the
  proleptic Gregorian calendar, years 1 to 9999. The time of day is always midnight in
  this program and is left out. \<open>toordinal\<close> follows \<^verbatim>\<open>_ymd2ord\<close> of the library;
  adding \<^verbatim>\<open>timedelta(days=k)\<close> is \<open>k\<close> steps to the next calendar day, refused with
  \<^verbatim>\<open>OverflowError\<close> when the day number leaves the range of the library.
\<close>

type_synonym date = "int \<times> int \<times> int"

definition is_leap :: "int \<Rightarrow> bool" where
  "is_leap y = (y mod 4 = 0 \<and> (y mod 100 \<noteq> 0 \<or> y mod 400 = 0))"

definition days_in_month :: "int \<Rightarrow> int \<Rightarrow> int" where
  "days_in_month y m =
     (if m = 2 then (if is_leap y then 29 else 28)
      else if m = 4 \<or> m = 6 \<or> m = 9 \<or> m = 11 then 30 else 31)"

definition days_before_year :: "int \<Rightarrow> int" where
  "days_before_year y = (y - 1) * 365 + (y - 1) div 4 - (y - 1) div 100 + (y - 1) div 400"

definition days_before_month :: "int \<Rightarrow> int \<Rightarrow> int" where
  "days_before_month y m =
     [0, 31, 59, 90, 120, 151, 181, 212, 243, 273, 304, 334] ! nat (m - 1)
       + (if m > 2 \<and> is_leap y then 1 else 0)"

fun toordinal :: "date \<Rightarrow> int" where
  "toordinal (y, m, d) = days_before_year y + days_before_month y m + d"

definition MAXORDINAL :: int where
  "MAXORDINAL = 3652059"

fun valid_date :: "date \<Rightarrow> bool" where
  "valid_date (y, m, d) =
     (1 \<le> y \<and> y \<le> 9999 \<and> 1 \<le> m \<and> m \<le> 12 \<and> 1 \<le> d \<and> d \<le> days_in_month y m)"

text \<open>A month and a day that exist in the calendar, in any year.\<close>

fun calendar_day :: "date \<Rightarrow> bool" where
  "calendar_day (y, m, d) = (1 \<le> m \<and> m \<le> 12 \<and> 1 \<le> d \<and> d \<le> days_in_month y m)"

fun next_day :: "date \<Rightarrow> date" where
  "next_day (y, m, d) =
     (if d < days_in_month y m then (y, m, d + 1)
      else if m < 12 then (y, m + 1, 1)
      else (y + 1, 1, 1))"

definition add_days :: "date \<Rightarrow> nat \<Rightarrow> error + date" where
  "add_days D k =
     (if toordinal D + int k \<le> MAXORDINAL then Inr ((next_day ^^ k) D)
      else Inl OverflowError)"

text \<open>Comparison of dates, as Python compares the (year, month, day) triples.\<close>

fun date_less :: "date \<Rightarrow> date \<Rightarrow> bool" where
  "date_less (y1, m1, d1) (y2, m2, d2) =
     (y1 < y2 \<or> (y1 = y2 \<and> (m1 < m2 \<or> (m1 = m2 \<and> d1 < d2))))"

subsection \<open>Formatting with \<^verbatim>\<open>%Y-%m-%d\<close>\<close>

text \<open>\<open>digit_char\<close> is the character of a digit from 0 to 9.\<close>

definition digit_char :: "int \<Rightarrow> char" where
  "digit_char n = ''0123456789'' ! nat n"

text \<open>\<^verbatim>\<open>str(n)\<close> for a natural number: its decimal digits.\<close>

fun str_nat :: "nat \<Rightarrow> string" where
  "str_nat n =
     (if n < 10 then [digit_char (int n)]
      else str_nat (n div 10) @ [digit_char (int (n mod 10))])"

declare str_nat.simps [simp del]

text \<open>
  The form YYYY-MM-DD of a date: the year with four digits, the month and the day with
  two, each filled with zeros.
\<close>

definition yyyy_mm_dd :: "date \<Rightarrow> string" where
  "yyyy_mm_dd D = (case D of (y, m, d) \<Rightarrow>
     [digit_char (y div 1000), digit_char (y div 100 mod 10),
      digit_char (y div 10 mod 10), digit_char (y mod 10), CHR ''-'',
      digit_char (m div 10), digit_char (m mod 10), CHR ''-'',
      digit_char (d div 10), digit_char (d mod 10)])"

text \<open>
  \<^verbatim>\<open>strftime("%Y-%m-%d")\<close> hands the format to the C library of the platform. The
  month and the day are always two digits. For \<^verbatim>\<open>%Y\<close> the platform is a parameter:
  with \<open>zero_fill\<close> the year is filled with zeros to four digits (Windows, and Python
  from 3.13 on), without it the year is written as the plain number (glibc before
  that), so that year 100 is \<^verbatim>\<open>100\<close>.
\<close>

definition strftime :: "bool \<Rightarrow> date \<Rightarrow> string" where
  "strftime zero_fill D = (case D of (y, m, d) \<Rightarrow>
     (if zero_fill
      then [digit_char (y div 1000), digit_char (y div 100 mod 10),
            digit_char (y div 10 mod 10), digit_char (y mod 10)]
      else str_nat (nat y))
     @ [CHR ''-'', digit_char (m div 10), digit_char (m mod 10), CHR ''-'',
        digit_char (d div 10), digit_char (d mod 10)])"

subsection \<open>Parsing with \<^verbatim>\<open>%Y-%m-%d\<close>\<close>

text \<open>
  \<^verbatim>\<open>strptime\<close> turns the format into a regular expression and matches it against the
  start of the text:
  \<^verbatim>\<open>(?P<Y>\d\d\d\d)-(?P<m>1[0-2]|0[1-9]|[1-9])-(?P<d>3[0-1]|[1-2]\d|0[1-9]|[1-9]| [1-9])\<close>.
  A group is a list of alternatives, tried in order; an alternative is a list of
  character ranges. Text left over after the match, and a (year, month, day) that is no
  date, are a \<^verbatim>\<open>ValueError\<close>. The model reads the ASCII digits; a text with
  other Unicode decimal digits, which the library reads as well, is outside the model,
  and no statement below rests on the model refusing a text.
\<close>

type_synonym char_range = "char \<times> char"

definition in_range :: "char_range \<Rightarrow> char \<Rightarrow> bool" where
  "in_range r c = ((of_char (fst r) :: nat) \<le> of_char c \<and> (of_char c :: nat) \<le> of_char (snd r))"

fun match_ranges :: "char_range list \<Rightarrow> string \<Rightarrow> string option" where
  "match_ranges [] s = Some s"
| "match_ranges (r # rs) [] = None"
| "match_ranges (r # rs) (c # s) = (if in_range r c then match_ranges rs s else None)"

fun match_groups :: "char_range list list list \<Rightarrow> string \<Rightarrow> (string list \<times> string) option"
  and match_alts :: "char_range list list \<Rightarrow> char_range list list list \<Rightarrow> string
      \<Rightarrow> (string list \<times> string) option" where
  "match_groups [] s = Some ([], s)"
| "match_groups (g # gs) s = match_alts g gs s"
| "match_alts [] gs s = None"
| "match_alts (a # as) gs s =
     (case match_ranges a s of
        None \<Rightarrow> match_alts as gs s
      | Some rest \<Rightarrow>
          (case match_groups gs rest of
             None \<Rightarrow> match_alts as gs s
           | Some (caps, r) \<Rightarrow> Some (take (length a) s # caps, r)))"

definition digit :: char_range where
  "digit = (CHR ''0'', CHR ''9'')"

definition one :: "char \<Rightarrow> char_range" where
  "one c = (c, c)"

definition year_group :: "char_range list list" where
  "year_group = [[digit, digit, digit, digit]]"

definition dash_group :: "char_range list list" where
  "dash_group = [[one CHR ''-'']]"

definition month_group :: "char_range list list" where
  "month_group =
     [[one CHR ''1'', (CHR ''0'', CHR ''2'')], [one CHR ''0'', (CHR ''1'', CHR ''9'')],
      [(CHR ''1'', CHR ''9'')]]"

definition day_group :: "char_range list list" where
  "day_group =
     [[one CHR ''3'', (CHR ''0'', CHR ''1'')], [(CHR ''1'', CHR ''2''), digit],
      [one CHR ''0'', (CHR ''1'', CHR ''9'')], [(CHR ''1'', CHR ''9'')],
      [one CHR '' '', (CHR ''1'', CHR ''9'')]]"

definition format_regex :: "char_range list list list" where
  "format_regex = [year_group, dash_group, month_group, dash_group, day_group]"

text \<open>\<^verbatim>\<open>int(s)\<close> on a captured group: digits, after an optional leading blank.\<close>

definition py_int :: "string \<Rightarrow> int" where
  "py_int s = foldl (\<lambda>a c. 10 * a + (int (of_char c) - 48)) 0 (dropWhile (\<lambda>c. c = CHR '' '') s)"

definition strptime :: "string \<Rightarrow> error + date" where
  "strptime s =
     (case match_groups format_regex s of
        Some ([Y, _, m, _, d], rest) \<Rightarrow>
          (if rest \<noteq> [] then Inl ValueError
           else if valid_date (py_int Y, py_int m, py_int d) then Inr (py_int Y, py_int m, py_int d)
           else Inl ValueError)
      | _ \<Rightarrow> Inl ValueError)"

section \<open>Strings\<close>

text \<open>
  A Python \<^verbatim>\<open>str\<close> is modelled by its UTF-8 bytes; the few non-ASCII characters of
  the program's literals (en dash, em dash, check mark) are written as their three bytes.
\<close>

definition dquote :: char where
  "dquote = CHR 0x22"


definition em_dash :: string where
  "em_dash = [CHR 0xE2, CHR 0x80, CHR 0x94]"

definition check_mark :: string where
  "check_mark = [CHR 0xE2, CHR 0x9C, CHR 0x93]"

definition newline :: char where
  "newline = CHR 0x0A"

text \<open>\<^verbatim>\<open>s.replace(c, new)\<close> for a one-character \<^verbatim>\<open>c\<close>.\<close>

definition replace :: "char \<Rightarrow> string \<Rightarrow> string \<Rightarrow> string" where
  "replace c new s = concat (map (\<lambda>x. if x = c then new else [x]) s)"

text \<open>\<^verbatim>\<open>sep.join(xs)\<close>.\<close>

fun join :: "string \<Rightarrow> string list \<Rightarrow> string" where
  "join sep [] = []"
| "join sep [x] = x"
| "join sep (x # y # ys) = x @ sep @ join sep (y # ys)"

text \<open>\<^verbatim>\<open>s.split(c)\<close> for a one-character separator: always at least one piece.\<close>

fun split :: "char \<Rightarrow> string \<Rightarrow> string list" where
  "split c [] = [[]]"
| "split c (x # xs) =
     (if x = c then [] # split c xs
      else (case split c xs of [] \<Rightarrow> [[x]] | w # ws \<Rightarrow> (x # w) # ws))"






text \<open>\<^verbatim>\<open>str(n)\<close> for an integer: decimal digits, with a minus sign when negative.\<close>

definition str_int :: "int \<Rightarrow> string" where
  "str_int i = (if i < 0 then CHR ''-'' # str_nat (nat (- i)) else str_nat (nat i))"

text \<open>\<^verbatim>\<open>str(v)\<close> on the value of a flag.\<close>

fun py_str :: "pyval \<Rightarrow> string" where
  "py_str PNone = ''None''"
| "py_str (PBool b) = (if b then ''True'' else ''False'')"
| "py_str (PInt i) = str_int i"
| "py_str (PStr s) = s"

section \<open>Notes and the revision schedule\<close>

record revision =
  date :: string
  completed :: "pyval option"

text \<open>
  A Python dict keeps its keys in insertion order; \<^verbatim>\<open>revisions\<close> is an association
  list from label to revision, read with \<open>map_of\<close>.
\<close>

type_synonym revisions = "(string \<times> revision) list"

definition make_revision_dates :: "bool \<Rightarrow> string \<Rightarrow> error + revisions" where
  "make_revision_dates zero_fill completion_date_str =
     bind_result (strptime completion_date_str) (\<lambda>d.
     bind_result (add_days d 1) (\<lambda>d1.
     bind_result (add_days d 3) (\<lambda>d3.
     bind_result (add_days d 7) (\<lambda>d7.
     bind_result (add_days d 30) (\<lambda>d30.
       Inr [(''24H'', \<lparr>date = strftime zero_fill d1, completed = Some (PBool False)\<rparr>),
            (''3Days'', \<lparr>date = strftime zero_fill d3, completed = Some (PBool False)\<rparr>),
            (''1Week'', \<lparr>date = strftime zero_fill d7, completed = Some (PBool False)\<rparr>),
            (''1Month'', \<lparr>date = strftime zero_fill d30, completed = Some (PBool False)\<rparr>)])))))"

text \<open>
  A note is a dict with the keys \<^verbatim>\<open>id\<close> (here \<open>note_id\<close>), \<^verbatim>\<open>subjectName\<close>,
  \<^verbatim>\<open>noteCode\<close>, \<^verbatim>\<open>completionDate\<close> and \<^verbatim>\<open>revisions\<close>; these keys are always
  there in the model, the labels of \<^verbatim>\<open>revisions\<close> and the \<^verbatim>\<open>completed\<close> entries may
  be missing.
\<close>

record study_note =
  note_id :: int
  subjectName :: string
  noteCode :: string
  completionDate :: string
  revisions :: revisions

text \<open>\<^verbatim>\<open>d[key]\<close>: a missing key raises \<^verbatim>\<open>KeyError\<close>.\<close>

definition getitem :: "('k \<times> 'v) list \<Rightarrow> 'k \<Rightarrow> error + 'v" where
  "getitem d key = (case map_of d key of None \<Rightarrow> Inl KeyError | Some v \<Rightarrow> Inr v)"

text \<open>A loop body that may raise, run over a list: the first exception ends the loop.\<close>

fun map_result :: "('a \<Rightarrow> error + 'b) \<Rightarrow> 'a list \<Rightarrow> error + 'b list" where
  "map_result f [] = Inr []"
| "map_result f (x # xs) =
     bind_result (f x) (\<lambda>y. bind_result (map_result f xs) (\<lambda>ys. Inr (y # ys)))"

section \<open>Persistence\<close>

text \<open>
  \<^verbatim>\<open>load_notes\<close> reads \<^verbatim>\<open>DATA_FILE\<close> in the data directory. The directory can be
  searched by the process or not; the file is absent, or it is there and cannot be opened
  or decoded, or it has a text. \<^verbatim>\<open>DATA_FILE.exists()\<close> (line 60) asks the system for
  the file's status: it answers false for a file that is not there, and raises
  \<^verbatim>\<open>PermissionError\<close> when the directory cannot be searched, whether the file is there
  or not. This call stands before the \<^verbatim>\<open>try\<close>. \<^verbatim>\<open>json.load\<close> is the library's parser,
  a parameter here: it returns the parsed document or raises.
\<close>

datatype file_state = Absent | Unreadable | Contents string

record storage =
  searchable :: bool
  stored :: file_state

definition path_exists :: "storage \<Rightarrow> error + bool" where
  "path_exists st = (if searchable st then Inr (stored st \<noteq> Absent) else Inl PermissionError)"

definition load_notes :: "(string \<Rightarrow> error + study_note list) \<Rightarrow> storage \<Rightarrow> error + study_note list" where
  "load_notes json_load st =
     bind_result (path_exists st) (\<lambda>found.
       if found then
         (case stored st of
            Contents text \<Rightarrow> (case json_load text of Inl e \<Rightarrow> Inr [] | Inr parsed \<Rightarrow> Inr parsed)
          | _ \<Rightarrow> Inr [])
       else Inr [])"

text \<open>
  The window holds the note list \<^verbatim>\<open>self.notes\<close> as \<open>window_notes\<close>; \<open>data_file\<close> is the collection that \<^verbatim>\<open>save_notes\<close>
  wrote last (\<open>None\<close>: nothing written since the window was opened).
\<close>

record main_window =
  window_notes :: "study_note list"
  data_file :: "study_note list option"

definition save_notes :: "study_note list \<Rightarrow> main_window \<Rightarrow> main_window" where
  "save_notes ns w = w\<lparr>data_file := Some ns\<rparr>"

text \<open>What a slot shows or raises: no dialog, a message box, or an exception.\<close>

datatype reply = NoDialog | Warning string string | Information string string | Raised error

section \<open>Adding a note\<close>






section \<open>Statistics\<close>

text \<open>The three counters of \<^verbatim>\<open>_update_stats\<close>: total, pending, completed.\<close>

definition count_revision :: "revision \<Rightarrow> nat \<times> nat \<Rightarrow> nat \<times> nat" where
  "count_revision r acc =
     (case acc of (n_pending, n_completed) \<Rightarrow>
        if get_completed (completed r) then (n_pending, n_completed + 1)
        else (n_pending + 1, n_completed))"

definition stats :: "study_note list \<Rightarrow> nat \<times> nat \<times> nat" where
  "stats ns =
     (case fold (\<lambda>n acc. fold count_revision (map snd (revisions n)) acc) ns (0, 0) of
        (n_pending, n_completed) \<Rightarrow> (length ns, n_pending, n_completed))"

text \<open>The texts of the three labels.\<close>

definition update_stats :: "study_note list \<Rightarrow> string \<times> string \<times> string" where
  "update_stats ns =
     (case stats ns of (n_total, n_pending, n_completed) \<Rightarrow>
        (''Total notes: '' @ str_nat n_total,
         ''Pending revisions: '' @ str_nat n_pending,
         ''Completed revisions: '' @ str_nat n_completed))"

section \<open>The colour of a revision in the table\<close>

text \<open>
  Lines 303 to 310 of \<^verbatim>\<open>_fill_table\<close>: the style sheet of the date label, \<open>None\<close> when
  none is set. \<open>today\<close> is the date of the clock.
\<close>

definition label_style :: "revision \<Rightarrow> date \<Rightarrow> error + string option" where
  "label_style r today =
     bind_result (strptime (date r)) (\<lambda>rev_date.
       Inr (if get_completed (completed r) then Some ''color: green; font-weight:600''
            else if date_less rev_date today then Some ''color: red; font-weight:600''
            else if rev_date = today then Some ''color: orange; font-weight:600''
            else None))"

text \<open>
  The status classifier in the words of the specification, to compare with
  \<open>label_style\<close>: the four statuses and the colour that shows each.
\<close>

datatype status = Completed | Overdue | DueToday | Upcoming

definition classify_spec :: "bool \<Rightarrow> date \<Rightarrow> date \<Rightarrow> status" where
  "classify_spec flag d today =
     (if flag then Completed
      else if date_less d today then Overdue
      else if d = today then DueToday
      else Upcoming)"

fun style_of :: "status \<Rightarrow> string option" where
  "style_of Completed = Some ''color: green; font-weight:600''"
| "style_of Overdue = Some ''color: red; font-weight:600''"
| "style_of DueToday = Some ''color: orange; font-weight:600''"
| "style_of Upcoming = None"

section \<open>Toggling a revision\<close>

text \<open>
  The loop of \<^verbatim>\<open>_toggle_revision\<close> over the notes: \<open>None\<close> when no note has the id, the
  new list when the first such note was changed, \<^verbatim>\<open>KeyError\<close> when that note has no
  revision under \<open>key\<close> (raised before anything is assigned).
\<close>

fun toggle_first :: "int \<Rightarrow> string \<Rightarrow> study_note list \<Rightarrow> error + study_note list option" where
  "toggle_first nid key [] = Inr None"
| "toggle_first nid key (n # ns) =
     (if note_id n = nid then
        (case map_of (revisions n) key of
           None \<Rightarrow> Inl KeyError
         | Some r \<Rightarrow>
             Inr (Some (n\<lparr>revisions :=
                 AList.update key (r\<lparr>completed := Some (PBool (\<not> get_completed (completed r)))\<rparr>)
                   (revisions n)\<rparr> # ns)))
      else (case toggle_first nid key ns of
              Inl e \<Rightarrow> Inl e
            | Inr None \<Rightarrow> Inr None
            | Inr (Some ns') \<Rightarrow> Inr (Some (n # ns'))))"

definition toggle_revision :: "int \<Rightarrow> string \<Rightarrow> main_window \<Rightarrow> reply \<times> main_window" where
  "toggle_revision nid key w =
     (case toggle_first nid key (window_notes w) of
        Inl e \<Rightarrow> (Raised e, w)
      | Inr None \<Rightarrow> (NoDialog, w)
      | Inr (Some ns) \<Rightarrow> (NoDialog, save_notes ns (w\<lparr>window_notes := ns\<rparr>)))"

text \<open>
  What a toggle may change in a note, in the words of the specification: nothing but the
  completed flag under the label \<open>key\<close>. The identifier, subject, code and completion
  date, the labels and their order, every target date, and every entry under another
  label are the same.
\<close>

definition same_but_flag :: "string \<Rightarrow> study_note \<Rightarrow> study_note \<Rightarrow> bool" where
  "same_but_flag key n n' =
     (note_id n' = note_id n \<and> subjectName n' = subjectName n \<and> noteCode n' = noteCode n
      \<and> completionDate n' = completionDate n
      \<and> map fst (revisions n') = map fst (revisions n)
      \<and> map (\<lambda>(k, r). date r) (revisions n') = map (\<lambda>(k, r). date r) (revisions n)
      \<and> filter (\<lambda>(k, r). k \<noteq> key) (revisions n') = filter (\<lambda>(k, r). k \<noteq> key) (revisions n))"

section \<open>Exports\<close>

subsection \<open>CSV\<close>

definition csv_header :: string where
  "csv_header = ''Subject,Note Code,Completion Date,24H Date,24H Status,3Days Date,3Days Status,1Week Date,1Week Status,1Month Date,1Month Status''"

text \<open>\<^verbatim>\<open>str(rev.get("completed", False))\<close>.\<close>

definition status_text :: "revision \<Rightarrow> string" where
  "status_text r = (case completed r of None \<Rightarrow> ''False'' | Some v \<Rightarrow> py_str v)"

definition csv_pair :: "study_note \<Rightarrow> string \<Rightarrow> error + string list" where
  "csv_pair n key = bind_result (getitem (revisions n) key) (\<lambda>r. Inr [date r, status_text r])"

definition csv_row :: "study_note \<Rightarrow> error + string list" where
  "csv_row n =
     bind_result (csv_pair n ''24H'') (\<lambda>c1.
     bind_result (csv_pair n ''3Days'') (\<lambda>c2.
     bind_result (csv_pair n ''1Week'') (\<lambda>c3.
     bind_result (csv_pair n ''1Month'') (\<lambda>c4.
       Inr ([replace dquote [dquote, dquote] (subjectName n),
             replace dquote [dquote, dquote] (noteCode n),
             completionDate n] @ c1 @ c2 @ c3 @ c4)))))"

definition csv_line :: "string list \<Rightarrow> string" where
  "csv_line row = join '','' (map (\<lambda>c. [dquote] @ c @ [dquote]) row)"

text \<open>
  \<^verbatim>\<open>export_csv\<close>: \<open>fname\<close> is the path on the desktop. The result is the dialog and, when
  a file was written, its text.
\<close>

definition export_csv :: "string \<Rightarrow> study_note list \<Rightarrow> error + reply \<times> string option" where
  "export_csv fname ns =
     (if ns = [] then Inr (Information ''Export'' ''No notes to export.'', None)
      else bind_result (map_result csv_row ns) (\<lambda>rows.
        Inr (Information ''Export'' (''CSV saved to: '' @ fname),
             Some (join [newline] (csv_header # map csv_line rows)))))"

subsection \<open>PDF\<close>

text \<open>The story handed to reportlab: paragraphs (text, style), spacers and tables.\<close>

datatype flowable = Paragraph string string | Spacer nat nat | Table "string list list"

definition pdf_cell :: "study_note \<Rightarrow> string \<Rightarrow> error + string" where
  "pdf_cell n key =
     bind_result (getitem (revisions n) key) (\<lambda>r.
       (case completed r of
          None \<Rightarrow> Inl KeyError
        | Some v \<Rightarrow> Inr (date r @ (if truth v then '' '' @ check_mark else []))))"

definition pdf_row :: "study_note \<Rightarrow> error + string list" where
  "pdf_row n =
     bind_result (pdf_cell n ''24H'') (\<lambda>c1.
     bind_result (pdf_cell n ''3Days'') (\<lambda>c2.
     bind_result (pdf_cell n ''1Week'') (\<lambda>c3.
     bind_result (pdf_cell n ''1Month'') (\<lambda>c4.
       Inr [noteCode n, subjectName n, completionDate n, c1, c2, c3, c4]))))"

definition pdf_header :: "string list" where
  "pdf_header = [''Code'', ''Module'', ''Completed'', ''24H'', ''3 Days'', ''1 Week'', ''1 Month'']"

text \<open>The two generator expressions of lines 389 and 390.\<close>

definition pending_count :: "study_note list \<Rightarrow> nat" where
  "pending_count ns =
     length (filter (\<lambda>r. \<not> get_completed (completed r)) (concat (map (\<lambda>n. map snd (revisions n)) ns)))"

definition completed_count :: "study_note list \<Rightarrow> nat" where
  "completed_count ns =
     length (filter (\<lambda>r. get_completed (completed r)) (concat (map (\<lambda>n. map snd (revisions n)) ns)))"

definition pdf_summary :: "study_note list \<Rightarrow> string" where
  "pdf_summary ns =
     ''Total notes: '' @ str_nat (length ns) @ '' '' @ em_dash @ '' Pending revisions: ''
       @ str_nat (pending_count ns) @ '' '' @ em_dash @ '' Completed revisions: ''
       @ str_nat (completed_count ns)"

text \<open>
  \<^verbatim>\<open>export_pdf\<close>: \<open>fname\<close> is the path on the desktop, \<open>generated\<close> the clock as
  \<^verbatim>\<open>%Y-%m-%d %H:%M:%S\<close>. The result is the dialog and, when a document was built, its
  story.
\<close>

definition export_pdf :: "string \<Rightarrow> string \<Rightarrow> study_note list \<Rightarrow> error + reply \<times> flowable list option" where
  "export_pdf fname generated ns =
     (if ns = [] then Inr (Information ''Export'' ''No notes to export.'', None)
      else bind_result (map_result pdf_row ns) (\<lambda>rows.
        Inr (Information ''Export'' (''PDF saved to: '' @ fname),
             Some [Paragraph (''Study Notes '' @ em_dash @ '' Revision Tracker'') ''Title'',
                   Paragraph (''Generated: '' @ generated) ''Normal'',
                   Spacer 1 12,
                   Table (pdf_header # rows),
                   Spacer 1 12,
                   Paragraph (pdf_summary ns) ''Normal''])))"

text \<open>
  The exports in closed form, to compare with the code: the four labels in their fixed
  order, the fields of a CSV data row and the cells of a PDF row of a note, a field
  enclosed in double quotes, and the reader's side of the escape (a pair of double quotes
  reads as one).
\<close>

definition revision_keys :: "string list" where
  "revision_keys = [''24H'', ''3Days'', ''1Week'', ''1Month'']"

definition quoted :: "string \<Rightarrow> string" where
  "quoted s = dquote # s @ [dquote]"

definition enclosed :: "string \<Rightarrow> bool" where
  "enclosed f = (2 \<le> length f \<and> hd f = dquote \<and> last f = dquote)"

fun undouble :: "string \<Rightarrow> string" where
  "undouble (a # b # s) =
     (if a = dquote \<and> b = dquote then dquote # undouble s else a # undouble (b # s))"
| "undouble s = s"

definition csv_fields :: "study_note \<Rightarrow> string list" where
  "csv_fields n =
     [replace dquote [dquote, dquote] (subjectName n), replace dquote [dquote, dquote] (noteCode n),
      completionDate n]
     @ concat (map (\<lambda>k. case map_of (revisions n) k of
                           None \<Rightarrow> []
                         | Some r \<Rightarrow> [date r, status_text r]) revision_keys)"

definition pdf_cells :: "study_note \<Rightarrow> string list" where
  "pdf_cells n =
     [noteCode n, subjectName n, completionDate n]
     @ map (\<lambda>k. case map_of (revisions n) k of
                    None \<Rightarrow> []
                  | Some r \<Rightarrow> date r @ (if get_completed (completed r) then '' '' @ check_mark else []))
         revision_keys"

section \<open>Reminders\<close>

text \<open>
  \<^verbatim>\<open>_check_due_revisions\<close>: the toasts shown, in order, as (title, body), and the
  exception that ended the scan, if any. A toast that fails to show is swallowed by the
  code, so a toast counts as shown when \<^verbatim>\<open>show_toast\<close> is called.
\<close>

type_synonym toast = "string \<times> string"

fun due_revisions :: "string \<Rightarrow> date \<Rightarrow> revisions \<Rightarrow> toast list \<times> error option" where
  "due_revisions code now [] = ([], None)"
| "due_revisions code now ((key, r) # rest) =
     (if get_completed (completed r) then due_revisions code now rest
      else (case strptime (date r) of
              Inl e \<Rightarrow> ([], Some e)
            | Inr rev_date \<Rightarrow>
                (case due_revisions code now rest of (ts, err) \<Rightarrow>
                   if rev_date = now \<or> toordinal rev_date - toordinal now = 1
                   then ((''Revision Reminder'',
                          code @ '' '' @ em_dash @ '' '' @ key @ '' due '' @ date r) # ts, err)
                   else (ts, err))))"

fun due_notes :: "date \<Rightarrow> study_note list \<Rightarrow> toast list \<times> error option" where
  "due_notes now [] = ([], None)"
| "due_notes now (n # ns) =
     (case due_revisions (noteCode n) now (revisions n) of
        (ts, Some e) \<Rightarrow> (ts, Some e)
      | (ts, None) \<Rightarrow> (case due_notes now ns of (ts', err) \<Rightarrow> (ts @ ts', err)))"

definition check_due_revisions :: "bool \<Rightarrow> bool \<Rightarrow> date \<Rightarrow> study_note list \<Rightarrow> toast list \<times> error option" where
  "check_due_revisions enabled toaster now ns =
     (if \<not> enabled then ([], None)
      else if \<not> toaster then ([], None)
      else due_notes now ns)"

text \<open>
  A checkpoint that is due, in the words of the specification: not completed, and dated
  today or one day after today.
\<close>

definition is_due :: "date \<Rightarrow> revision \<Rightarrow> bool" where
  "is_due today r =
     (\<not> get_completed (completed r)
      \<and> (case strptime (date r) of
            Inl e \<Rightarrow> False
          | Inr d \<Rightarrow> d = today \<or> toordinal d - toordinal today = 1))"

section \<open>Sample data\<close>

text \<open>
  A note with the schedule of the completion date 2025-01-10 and a subject that holds
  double quotes (as a note read from the file may have); a window with this one note; and
  a parser that reads one text as this note and rejects every other text.
\<close>

definition sample_note :: study_note where
  "sample_note =
     \<lparr>note_id = 17, subjectName = ''Test '' @ [dquote] @ ''Quote'' @ [dquote], noteCode = ''N1'',
      completionDate = ''2025-01-10'',
      revisions =
        [(''24H'', \<lparr>date = ''2025-01-11'', completed = Some (PBool False)\<rparr>),
         (''3Days'', \<lparr>date = ''2025-01-13'', completed = Some (PBool False)\<rparr>),
         (''1Week'', \<lparr>date = ''2025-01-17'', completed = Some (PBool False)\<rparr>),
         (''1Month'', \<lparr>date = ''2025-02-09'', completed = Some (PBool False)\<rparr>)]\<rparr>"

definition sample_window :: main_window where
  "sample_window = \<lparr>window_notes = [sample_note], data_file = None\<rparr>"

definition sample_json_load :: "string \<Rightarrow> error + study_note list" where
  "sample_json_load t = (if t = ''[sample]'' then Inr [sample_note] else Inl ValueError)"

section \<open>The calendar: day numbers and the next day\<close>

text \<open>
  The day number of the next calendar day is one more; day numbers grow with the
  dates, so two dates with the same day number are the same date.
\<close>

lemma div_step:
  fixes y k :: int
  assumes "0 < k"
  shows "y div k = (y - 1) div k + (if y mod k = 0 then 1 else 0)"
proof (cases "y mod k = 0")
  case True
  have "y = k * (y div k) + y mod k" by simp
  with True have "y - 1 = k * (y div k - 1) + (k - 1)" by (simp add: algebra_simps)
  then have "(y - 1) div k = y div k - 1"
    by (rule int_div_pos_eq) (use assms in auto)
  with True show ?thesis by simp
next
  case False
  from assms have "0 \<le> y mod k" "y mod k < k" by simp_all
  with False have r: "0 \<le> y mod k - 1" "y mod k - 1 < k" by simp_all
  have "y - 1 = k * (y div k) + (y mod k - 1)" by simp
  then have "(y - 1) div k = y div k"
    using r by (rule int_div_pos_eq)
  with False show ?thesis by simp
qed

lemma mod_100_4: "(y::int) mod 100 = 0 \<Longrightarrow> y mod 4 = 0"
  using mod_mod_cancel [of 4 100 y] by simp

lemma mod_400_100: "(y::int) mod 400 = 0 \<Longrightarrow> y mod 100 = 0"
  using mod_mod_cancel [of 100 400 y] by simp


lemmas strptime_eval =
  strptime_def format_regex_def year_group_def dash_group_def month_group_def day_group_def
  digit_def one_def in_range_def py_int_def days_in_month_def is_leap_def

lemma leap_count:
  fixes e4 e100 e400 :: int
  assumes "p100 \<Longrightarrow> p4" "p400 \<Longrightarrow> p100"
    and "e4 = (if p4 then 1 else 0)" "e100 = (if p100 then 1 else 0)"
    and "e400 = (if p400 then 1 else 0)"
  shows "e4 - e100 + e400 = (if p4 \<and> (\<not> p100 \<or> p400) then 1 else 0)"
  using assms by (cases p4; cases p100; cases p400) simp_all

lemma days_before_year_Suc:
  "days_before_year (y + 1) = days_before_year y + (if is_leap y then 366 else 365)"
proof -
  define A B C where "A = (y - 1) div 4" and "B = (y - 1) div 100" and "C = (y - 1) div 400"
  define e4 e100 e400 :: int where "e4 = (if y mod 4 = 0 then 1 else 0)"
    and "e100 = (if y mod 100 = 0 then 1 else 0)"
    and "e400 = (if y mod 400 = 0 then 1 else 0)"
  have s4: "y div 4 = A + e4" unfolding A_def e4_def by (rule div_step) simp
  have s100: "y div 100 = B + e100" unfolding B_def e100_def by (rule div_step) simp
  have s400: "y div 400 = C + e400" unfolding C_def e400_def by (rule div_step) simp
  have "y + 1 - 1 = y" by simp
  then have L: "days_before_year (y + 1) = y * 365 + (A + e4) - (B + e100) + (C + e400)"
    by (simp only: days_before_year_def s4 s100 s400)
  have R: "days_before_year y = (y - 1) * 365 + A - B + C"
    by (simp only: days_before_year_def A_def B_def C_def)
  have E: "e4 - e100 + e400 = (if is_leap y then 1 else 0)"
    unfolding is_leap_def
    by (rule leap_count [OF _ _ e4_def e100_def e400_def]) (erule mod_100_4, erule mod_400_100)
  have "days_before_year (y + 1) = days_before_year y + 365 + (e4 - e100 + e400)"
    unfolding L R by (simp add: algebra_simps)
  then show ?thesis unfolding E by simp
qed

lemma month_cases:
  "1 \<le> (m::int) \<Longrightarrow> m \<le> 12 \<Longrightarrow>
   m = 1 \<or> m = 2 \<or> m = 3 \<or> m = 4 \<or> m = 5 \<or> m = 6 \<or> m = 7 \<or> m = 8 \<or> m = 9 \<or> m = 10 \<or> m = 11 \<or> m = 12"
  by arith

lemma toordinal_next_day:
  assumes "1 \<le> m" "m \<le> 12" "1 \<le> d" "d \<le> days_in_month y m"
  shows "toordinal (next_day (y, m, d)) = toordinal (y, m, d) + 1"
  using month_cases [OF assms(1,2)] assms(3,4)
  by (elim disjE) (simp_all add: days_in_month_def days_before_month_def days_before_year_Suc)

lemma days_in_month_pos: "1 \<le> days_in_month y m"
  by (simp add: days_in_month_def)

lemma calendar_day_next_day:
  assumes "calendar_day D"
  shows "calendar_day (next_day D)"
proof -
  obtain y m d where D: "D = (y, m, d)" by (cases D)
  with assms show ?thesis by (auto simp: days_in_month_pos)
qed

lemma next_day_ordinal:
  assumes "calendar_day D"
  shows "toordinal (next_day D) = toordinal D + 1"
proof -
  obtain y m d where D: "D = (y, m, d)" by (cases D)
  with assms show ?thesis using toordinal_next_day [of m d y] by simp
qed

lemma days_later:
  assumes "calendar_day D"
  shows "calendar_day ((next_day ^^ k) D) \<and> toordinal ((next_day ^^ k) D) = toordinal D + int k"
proof (induction k)
  case 0
  from assms show ?case by simp
next
  case (Suc k)
  then show ?case by (simp add: calendar_day_next_day next_day_ordinal)
qed

lemma strptime_valid:
  assumes "strptime s = Inr D"
  shows "valid_date D"
  using assms unfolding strptime_def
  by (auto split: option.splits list.splits if_splits prod.splits)

lemma valid_calendar_day: "valid_date D \<Longrightarrow> calendar_day D"
  by (cases D) simp

lemma add_days_in_range:
  assumes "toordinal D + int n \<le> MAXORDINAL" and "k \<le> n"
  shows "add_days D k = Inr ((next_day ^^ k) D)"
  using assms by (simp add: add_days_def)


lemma days_before_year_step: "days_before_year y + 365 \<le> days_before_year (y + 1)"
  by (simp add: days_before_year_Suc)

lemma days_before_year_steps: "days_before_year y + 365 * int k \<le> days_before_year (y + int k)"
proof (induction k)
  case 0
  show ?case by simp
next
  case (Suc k)
  have e: "y + int (Suc k) = (y + int k) + 1" by simp
  have "days_before_year (y + int k) + 365 \<le> days_before_year (y + int (Suc k))"
    unfolding e by (rule days_before_year_step)
  with Suc show ?case by simp
qed

lemma days_before_year_mono:
  assumes "y \<le> y'"
  shows "days_before_year y \<le> days_before_year y'"
proof -
  from assms have e: "y + int (nat (y' - y)) = y'" by simp
  have "days_before_year y + 365 * int (nat (y' - y)) \<le> days_before_year y'"
    using days_before_year_steps [of y "nat (y' - y)"] unfolding e .
  moreover have "0 \<le> 365 * int (nat (y' - y))" by simp
  ultimately show ?thesis by linarith
qed

lemma day_of_year_bounds:
  assumes "1 \<le> m" "m \<le> 12" "1 \<le> d" "d \<le> days_in_month y m"
  shows "1 \<le> days_before_month y m + d"
    and "days_before_month y m + d \<le> (if is_leap y then 366 else 365)"
  using month_cases [OF assms(1,2)] assms(3,4)
  by (auto simp: days_in_month_def days_before_month_def split: if_splits)

lemma toordinal_year_bounds:
  assumes "calendar_day (y, m, d)"
  shows "days_before_year y < toordinal (y, m, d)"
    and "toordinal (y, m, d) \<le> days_before_year (y + 1)"
proof -
  from assms have c: "1 \<le> m" "m \<le> 12" "1 \<le> d" "d \<le> days_in_month y m" by simp_all
  from day_of_year_bounds(1) [OF c] show "days_before_year y < toordinal (y, m, d)" by simp
  from day_of_year_bounds(2) [OF c] show "toordinal (y, m, d) \<le> days_before_year (y + 1)"
    by (simp add: days_before_year_Suc)
qed

lemma days_before_month_mono:
  assumes "1 \<le> m1" "m1 < m2" "m2 \<le> 12" "d1 \<le> days_in_month y m1" "1 \<le> d2"
  shows "days_before_month y m1 + d1 < days_before_month y m2 + d2"
proof -
  from assms have a: "1 \<le> m1" "m1 \<le> 12" and b: "1 \<le> m2" "m2 \<le> 12" by simp_all
  show ?thesis
    using month_cases [OF a] month_cases [OF b] assms(2,4,5)
    by (elim disjE) (simp_all add: days_in_month_def days_before_month_def split: if_splits)
qed

lemma toordinal_mono:
  assumes "calendar_day D1" and "calendar_day D2" and "date_less D1 D2"
  shows "toordinal D1 < toordinal D2"
proof -
  obtain y1 m1 d1 where D1: "D1 = (y1, m1, d1)" by (cases D1)
  obtain y2 m2 d2 where D2: "D2 = (y2, m2, d2)" by (cases D2)
  from assms(1) D1 have c1: "calendar_day (y1, m1, d1)" by simp
  from assms(2) D2 have c2: "calendar_day (y2, m2, d2)" by simp
  from assms(3) D1 D2 consider (year) "y1 < y2" | (month) "y1 = y2" "m1 < m2"
    | (day) "y1 = y2" "m1 = m2" "d1 < d2" by auto
  then show ?thesis
  proof cases
    case year
    then have "days_before_year (y1 + 1) \<le> days_before_year y2"
      by (intro days_before_year_mono) simp
    with toordinal_year_bounds(2) [OF c1] toordinal_year_bounds(1) [OF c2]
    show ?thesis unfolding D1 D2 by linarith
  next
    case month
    with c1 c2 have "days_before_month y1 m1 + d1 < days_before_month y1 m2 + d2"
      by (intro days_before_month_mono) simp_all
    with month show ?thesis by (simp add: D1 D2)
  next
    case day
    then show ?thesis by (simp add: D1 D2)
  qed
qed

lemma toordinal_inj:
  assumes "calendar_day D1" and "calendar_day D2" and "toordinal D1 = toordinal D2"
  shows "D1 = D2"
proof (rule ccontr)
  assume "D1 \<noteq> D2"
  then have "date_less D1 D2 \<or> date_less D2 D1"
    by (cases D1; cases D2) auto
  with toordinal_mono [OF assms(1,2)] toordinal_mono [OF assms(2,1)] assms(3)
  show False by auto
qed

lemma one_day_after:
  assumes "calendar_day d" and "calendar_day today"
  shows "(toordinal d - toordinal today = 1) = (d = next_day today)"
proof
  assume "toordinal d - toordinal today = 1"
  then have "toordinal d = toordinal (next_day today)"
    by (simp add: next_day_ordinal [OF assms(2)])
  with assms(1) calendar_day_next_day [OF assms(2)] show "d = next_day today"
    by (rule toordinal_inj)
next
  assume "d = next_day today"
  then show "toordinal d - toordinal today = 1"
    by (simp add: next_day_ordinal [OF assms(2)])
qed

lemma schedule_in_range:
  assumes "calendar_day D" and "\<not> date_less (9999, 12, 1) D"
  shows "toordinal D + 30 \<le> MAXORDINAL"
proof -
  have last: "toordinal (9999, 12, 1) + 30 = MAXORDINAL"
    by (simp add: MAXORDINAL_def days_before_year_def days_before_month_def is_leap_def)
  have c: "calendar_day (9999, 12, 1)" by (simp add: days_in_month_def is_leap_def)
  show ?thesis
  proof (cases "D = (9999, 12, 1)")
    case True
    with last show ?thesis by simp
  next
    case False
    with assms(2) have "date_less D (9999, 12, 1)" by (cases D) auto
    from toordinal_mono [OF assms(1) c this] last show ?thesis by simp
  qed
qed

lemma schedule_out_of_range:
  assumes "calendar_day D" and "date_less (9999, 12, 1) D"
  shows "MAXORDINAL < toordinal D + 30"
proof -
  have last: "toordinal (9999, 12, 1) + 30 = MAXORDINAL"
    by (simp add: MAXORDINAL_def days_before_year_def days_before_month_def is_leap_def)
  have c: "calendar_day (9999, 12, 1)" by (simp add: days_in_month_def is_leap_def)
  from toordinal_mono [OF c assms(1) assms(2)] last show ?thesis by simp
qed


section \<open>Formatting and parsing a date\<close>

lemma digit_cases:
  "0 \<le> (k::int) \<Longrightarrow> k \<le> 9 \<Longrightarrow>
   k = 0 \<or> k = 1 \<or> k = 2 \<or> k = 3 \<or> k = 4 \<or> k = 5 \<or> k = 6 \<or> k = 7 \<or> k = 8 \<or> k = 9"
  by arith

lemma digit_char_props:
  assumes "0 \<le> k" and "k \<le> 9"
  shows "in_range digit (digit_char k)" and "int (of_char (digit_char k)) - 48 = k"
    and "digit_char k \<noteq> CHR '' ''"
  using digit_cases [OF assms]
  by (auto simp: digit_char_def in_range_def digit_def)

lemma py_int_two:
  assumes "0 \<le> p" "p \<le> 9" "0 \<le> q" "q \<le> 9"
  shows "py_int [digit_char p, digit_char q] = 10 * p + q"
  using digit_char_props [OF assms(1,2)] digit_char_props [OF assms(3,4)]
  by (simp add: py_int_def)

lemma py_int_four:
  assumes "0 \<le> a" "a \<le> 9" "0 \<le> b" "b \<le> 9" "0 \<le> c" "c \<le> 9" "0 \<le> e" "e \<le> 9"
  shows "py_int [digit_char a, digit_char b, digit_char c, digit_char e]
           = 1000 * a + 100 * b + 10 * c + e"
  using digit_char_props [OF assms(1,2)] digit_char_props [OF assms(3,4)]
    digit_char_props [OF assms(5,6)] digit_char_props [OF assms(7,8)]
  by (simp add: py_int_def)

lemma year_match:
  assumes "in_range digit a" "in_range digit b" "in_range digit c" "in_range digit e"
  shows "match_groups (year_group # gs) (a # b # c # e # t) =
           (case match_groups gs t of
              None \<Rightarrow> None
            | Some (caps, r) \<Rightarrow> Some ([a, b, c, e] # caps, r))"
  using assms by (simp add: year_group_def split: option.splits)

lemma day_cases:
  "1 \<le> (d::int) \<Longrightarrow> d \<le> 31 \<Longrightarrow>
   d = 1 \<or> d = 2 \<or> d = 3 \<or> d = 4 \<or> d = 5 \<or> d = 6 \<or> d = 7 \<or> d = 8 \<or> d = 9 \<or> d = 10
   \<or> d = 11 \<or> d = 12 \<or> d = 13 \<or> d = 14 \<or> d = 15 \<or> d = 16 \<or> d = 17 \<or> d = 18 \<or> d = 19 \<or> d = 20
   \<or> d = 21 \<or> d = 22 \<or> d = 23 \<or> d = 24 \<or> d = 25 \<or> d = 26 \<or> d = 27 \<or> d = 28 \<or> d = 29 \<or> d = 30
   \<or> d = 31"
  by arith

lemma dash_match:
  "match_groups (dash_group # gs) (CHR ''-'' # t) =
     (case match_groups gs t of
        None \<Rightarrow> None
      | Some (caps, r) \<Rightarrow> Some (''-'' # caps, r))"
  by (simp add: dash_group_def one_def in_range_def split: option.splits)

lemma day_match:
  assumes "1 \<le> d" and "d \<le> 31"
  shows "match_groups [day_group] [digit_char (d div 10), digit_char (d mod 10)]
         = Some ([[digit_char (d div 10), digit_char (d mod 10)]], [])"
  using day_cases [OF assms]
  by (elim disjE)
    (simp_all add: day_group_def digit_def one_def in_range_def digit_char_def)

lemma month_match:
  assumes "1 \<le> m" and "m \<le> 12" and "match_groups gs t = Some (caps, r)"
  shows "match_groups (month_group # gs) ([digit_char (m div 10), digit_char (m mod 10)] @ t)
         = Some ([digit_char (m div 10), digit_char (m mod 10)] # caps, r)"
  using month_cases [OF assms(1,2)]
  by (elim disjE)
    (simp_all add: month_group_def digit_def one_def in_range_def digit_char_def assms(3))

lemma four_digits:
  fixes y :: int
  assumes "0 \<le> y" and "y \<le> 9999"
  shows "0 \<le> y div 1000 \<and> y div 1000 \<le> 9"
    and "1000 * (y div 1000) + 100 * (y div 100 mod 10) + 10 * (y div 10 mod 10) + y mod 10 = y"
proof -
  have "y div 1000 \<le> 9999 div 1000"
    using assms(2) by (intro zdiv_mono1) simp_all
  moreover have "0 \<le> y div 1000"
    using assms(1) by (simp add: pos_imp_zdiv_nonneg_iff)
  ultimately show "0 \<le> y div 1000 \<and> y div 1000 \<le> 9" by simp
  have a: "y = 10 * (y div 10) + y mod 10" by simp
  have b: "y div 10 = 10 * (y div 10 div 10) + y div 10 mod 10" by simp
  have c: "y div 100 = 10 * (y div 100 div 10) + y div 100 mod 10" by simp
  have d: "y div 10 div 10 = y div 100" "y div 100 div 10 = y div 1000"
    by (simp_all add: zdiv_zmult2_eq [symmetric])
  define A B C E F G where "A = y div 10" and "B = y mod 10" and "C = y div 100"
    and "E = y div 10 mod 10" and "F = y div 1000" and "G = y div 100 mod 10"
  from a b c show "1000 * (y div 1000) + 100 * (y div 100 mod 10) + 10 * (y div 10 mod 10) + y mod 10 = y"
    unfolding d unfolding A_def [symmetric] B_def [symmetric] C_def [symmetric]
      E_def [symmetric] F_def [symmetric] G_def [symmetric]
    by linarith
qed

lemma two_digits:
  fixes k :: int
  assumes "0 \<le> k" and "k \<le> 99"
  shows "0 \<le> k div 10 \<and> k div 10 \<le> 9" and "0 \<le> k mod 10 \<and> k mod 10 \<le> 9"
    and "10 * (k div 10) + k mod 10 = k"
proof -
  have "k div 10 \<le> 99 div 10"
    using assms(2) by (intro zdiv_mono1) simp_all
  moreover have "0 \<le> k div 10"
    using assms(1) by (simp add: pos_imp_zdiv_nonneg_iff)
  ultimately show "0 \<le> k div 10 \<and> k div 10 \<le> 9" by simp
  have "0 \<le> k mod 10" "k mod 10 < 10" by simp_all
  then show "0 \<le> k mod 10 \<and> k mod 10 \<le> 9" by simp
  show "10 * (k div 10) + k mod 10 = k" by simp
qed

lemma days_in_month_le: "days_in_month y m \<le> 31"
  by (simp add: days_in_month_def)

text \<open>Every date of the library, written as YYYY-MM-DD, is read back as itself.\<close>

lemma strptime_yyyy_mm_dd:
  assumes "valid_date D"
  shows "strptime (yyyy_mm_dd D) = Inr D"
proof -
  obtain y m d where D: "D = (y, m, d)" by (cases D)
  from assms D have y: "1 \<le> y" "y \<le> 9999" and m: "1 \<le> m" "m \<le> 12"
    and d: "1 \<le> d" "d \<le> days_in_month y m" by simp_all
  from d(2) days_in_month_le [of y m] have d31: "d \<le> 31" by simp
  define a b c e where "a = y div 1000" and "b = y div 100 mod 10" and "c = y div 10 mod 10"
    and "e = y mod 10"
  define mm where "mm = [digit_char (m div 10), digit_char (m mod 10)]"
  define dd where "dd = [digit_char (d div 10), digit_char (d mod 10)]"
  have y0: "0 \<le> y" using y(1) by simp
  have ra: "0 \<le> a" "a \<le> 9" using four_digits(1) [OF y0 y(2)] by (simp_all add: a_def)
  have rb: "0 \<le> b" "b \<le> 9" and rc: "0 \<le> c" "c \<le> 9" and re: "0 \<le> e" "e \<le> 9"
    unfolding b_def c_def e_def by simp_all
  have ysum: "1000 * a + 100 * b + 10 * c + e = y"
    unfolding a_def b_def c_def e_def by (rule four_digits(2) [OF y0 y(2)])
  have m99: "0 \<le> m" "m \<le> 99" and d99: "0 \<le> d" "d \<le> 99" using m d(1) d31 by simp_all
  have shape: "yyyy_mm_dd D = digit_char a # digit_char b # digit_char c # digit_char e
      # CHR ''-'' # mm @ CHR ''-'' # dd"
    by (simp add: D yyyy_mm_dd_def a_def b_def c_def e_def mm_def dd_def)
  have day: "match_groups [dash_group, day_group] (CHR ''-'' # dd) = Some ([''-'', dd], [])"
    unfolding dd_def dash_match day_match [OF d(1) d31] by simp
  have month: "match_groups [month_group, dash_group, day_group] (mm @ CHR ''-'' # dd)
      = Some ([mm, ''-'', dd], [])"
    unfolding mm_def by (rule month_match [OF m day])
  have tail: "match_groups [dash_group, month_group, dash_group, day_group]
      (CHR ''-'' # mm @ CHR ''-'' # dd) = Some ([''-'', mm, ''-'', dd], [])"
    unfolding dash_match month by simp
  have all: "match_groups format_regex (yyyy_mm_dd D)
      = Some ([[digit_char a, digit_char b, digit_char c, digit_char e], ''-'', mm, ''-'', dd], [])"
    unfolding shape format_regex_def
    by (simp only: year_match [OF digit_char_props(1) [OF ra] digit_char_props(1) [OF rb]
          digit_char_props(1) [OF rc] digit_char_props(1) [OF re]] tail)
      simp
  have py: "py_int [digit_char a, digit_char b, digit_char c, digit_char e] = y"
    using py_int_four [OF ra rb rc re] ysum by simp
  have pm: "py_int mm = m"
    unfolding mm_def
    using py_int_two [of "m div 10" "m mod 10"] two_digits [OF m99] by simp
  have pd: "py_int dd = d"
    unfolding dd_def
    using py_int_two [of "d div 10" "d mod 10"] two_digits [OF d99] by simp
  show ?thesis
    unfolding strptime_def all using assms by (simp add: py pm pd D)
qed

text \<open>
  From year 1000 on the plain number of the year has four digits, so both platforms
  write the date of \<open>strftime\<close> in the form YYYY-MM-DD.
\<close>

lemma str_nat_four:
  assumes "1000 \<le> n" and "n \<le> 9999"
  shows "str_nat n = [digit_char (int (n div 1000)), digit_char (int (n div 100 mod 10)),
           digit_char (int (n div 10 mod 10)), digit_char (int (n mod 10))]"
proof -
  from assms(1) have "1000 div 10 \<le> n div 10" by (rule div_le_mono)
  then have a: "\<not> n div 10 < 10" by simp
  from assms(1) have "1000 div 100 \<le> n div 100" by (rule div_le_mono)
  then have b: "\<not> n div 100 < 10" by simp
  from assms(2) have "n div 1000 \<le> 9999 div 1000" by (rule div_le_mono)
  then have c: "n div 1000 < 10" by simp
  from assms(1) have d: "\<not> n < 10" by simp
  have e: "n div 10 div 10 = n div 100" "n div 100 div 10 = n div 1000"
    by (simp_all add: div_mult2_eq [symmetric])
  have "str_nat n = str_nat (n div 10) @ [digit_char (int (n mod 10))]"
    using d by (simp add: str_nat.simps [of n])
  also have "str_nat (n div 10) = str_nat (n div 100) @ [digit_char (int (n div 10 mod 10))]"
    using a by (simp add: str_nat.simps [of "n div 10"] e)
  also have "str_nat (n div 100) = str_nat (n div 1000) @ [digit_char (int (n div 100 mod 10))]"
    using b by (simp add: str_nat.simps [of "n div 100"] e)
  also have "str_nat (n div 1000) = [digit_char (int (n div 1000))]"
    using c by (simp add: str_nat.simps [of "n div 1000"])
  finally show ?thesis by simp
qed

lemma strftime_form:
  assumes "zero_fill \<or> 1000 \<le> y" and "y \<le> 9999"
  shows "strftime zero_fill (y, m, d) = yyyy_mm_dd (y, m, d)"
proof (cases zero_fill)
  case True
  then show ?thesis by (simp add: strftime_def yyyy_mm_dd_def)
next
  case False
  with assms(1) have y: "1000 \<le> y" by simp
  then have n: "1000 \<le> nat y" "nat y \<le> 9999" using assms(2) by simp_all
  have i: "int (nat y div 1000) = y div 1000" "int (nat y div 100 mod 10) = y div 100 mod 10"
    "int (nat y div 10 mod 10) = y div 10 mod 10" "int (nat y mod 10) = y mod 10"
    using y by (simp_all add: zdiv_int zmod_int)
  show ?thesis
    using False by (simp add: strftime_def yyyy_mm_dd_def str_nat_four [OF n] i)
qed

lemma year_next_day: "fst D \<le> fst (next_day D)"
  by (cases D) simp

lemma year_days_later: "fst D \<le> fst ((next_day ^^ k) D)"
proof (induction k)
  case 0
  show ?case by simp
next
  case (Suc k)
  have "fst ((next_day ^^ k) D) \<le> fst (next_day ((next_day ^^ k) D))"
    by (rule year_next_day)
  with Suc show ?case by simp
qed

lemma year_in_range:
  assumes "calendar_day D" and "toordinal D \<le> MAXORDINAL"
  shows "fst D \<le> 9999"
proof (rule ccontr)
  assume "\<not> fst D \<le> 9999"
  then have big: "10000 \<le> fst D" by simp
  obtain y m d where D: "D = (y, m, d)" by (cases D)
  have "days_before_year 10000 = MAXORDINAL"
    by (simp add: days_before_year_def MAXORDINAL_def)
  moreover have "days_before_year 10000 \<le> days_before_year y"
    using big D by (intro days_before_year_mono) simp
  moreover have "days_before_year y < toordinal (y, m, d)"
    using assms(1) D by (intro toordinal_year_bounds(1)) simp
  ultimately show False using assms(2) D by simp
qed

lemma strftime_days_later:
  assumes "calendar_day D" and "toordinal D + int n \<le> MAXORDINAL" and "k \<le> n"
    and "zero_fill \<or> 1000 \<le> fst D"
  shows "strftime zero_fill ((next_day ^^ k) D) = yyyy_mm_dd ((next_day ^^ k) D)"
proof -
  obtain y m d where E: "(next_day ^^ k) D = (y, m, d)" by (cases "(next_day ^^ k) D")
  from days_later [OF assms(1), of k] have c: "calendar_day ((next_day ^^ k) D)"
    and o: "toordinal ((next_day ^^ k) D) = toordinal D + int k" by simp_all
  from o assms(2,3) have "toordinal ((next_day ^^ k) D) \<le> MAXORDINAL" by simp
  from year_in_range [OF c this] E have hi: "y \<le> 9999" by simp
  from year_days_later [of D k] E have "fst D \<le> y" by simp
  with assms(4) have lo: "zero_fill \<or> 1000 \<le> y" by auto
  show ?thesis unfolding E using lo hi by (rule strftime_form)
qed


section \<open>C1: the revision schedule\<close>

lemma add_days_error:
  assumes "add_days D k = Inl e"
  shows "e = OverflowError"
  using assms by (simp add: add_days_def split: if_splits)

lemma make_revision_dates_overflow:
  assumes "strptime s = Inr D" and "date_less (9999, 12, 1) D"
  shows "make_revision_dates zero_fill s = Inl OverflowError"
proof -
  have "calendar_day D"
    using assms(1) by (simp add: strptime_valid valid_calendar_day)
  from schedule_out_of_range [OF this assms(2)]
  have "add_days D 30 = Inl OverflowError" by (simp add: add_days_def)
  then show ?thesis
    unfolding make_revision_dates_def bind_result_def assms(1)
    by (auto split: sum.splits dest: add_days_error)
qed

lemma early_year_schedule:
  "make_revision_dates False ''0100-01-01'' =
     Inr [(''24H'', \<lparr>date = ''100-01-02'', completed = Some (PBool False)\<rparr>),
          (''3Days'', \<lparr>date = ''100-01-04'', completed = Some (PBool False)\<rparr>),
          (''1Week'', \<lparr>date = ''100-01-08'', completed = Some (PBool False)\<rparr>),
          (''1Month'', \<lparr>date = ''100-01-31'', completed = Some (PBool False)\<rparr>)]"
proof -
  have p: "strptime ''0100-01-01'' = Inr (100, 1, 1)"
    by (simp add: strptime_eval)
  have r: "toordinal (100, 1, 1) + int 30 \<le> MAXORDINAL"
    by (simp add: MAXORDINAL_def days_before_year_def days_before_month_def)
  have n: "(next_day ^^ Suc 0) (100, 1, 1) = (100, 1, 2)"
    "(next_day ^^ 3) (100, 1, 1) = (100, 1, 4)"
    "(next_day ^^ 7) (100, 1, 1) = (100, 1, 8)"
    "(next_day ^^ 30) (100, 1, 1) = (100, 1, 31)"
    by (simp_all add: eval_nat_numeral days_in_month_def is_leap_def)
  have a: "add_days (100, 1, 1) (Suc 0) = Inr (100, 1, 2)"
    "add_days (100, 1, 1) 3 = Inr (100, 1, 4)"
    "add_days (100, 1, 1) 7 = Inr (100, 1, 8)"
    "add_days (100, 1, 1) 30 = Inr (100, 1, 31)"
    by (simp_all add: add_days_in_range [OF r] n days_in_month_def is_leap_def)
  have y: "str_nat 100 = ''100''"
    by (simp add: str_nat.simps [of 100] str_nat.simps [of 10] str_nat.simps [of "Suc 0"] digit_char_def)
  have d: "strftime False (100, 1, 2) = ''100-01-02''" "strftime False (100, 1, 4) = ''100-01-04''"
    "strftime False (100, 1, 8) = ''100-01-08''" "strftime False (100, 1, 31) = ''100-01-31''"
    by (simp_all add: strftime_def y digit_char_def)
  show ?thesis
    by (simp add: make_revision_dates_def bind_result_def p a d)
qed

text \<open>
  C1, as stated, fails for the last thirty days of the year 9999: the library refuses a
  date after 9999-12-31, and \<open>make_revision_dates\<close> raises \<^verbatim>\<open>OverflowError\<close> on
  either platform. It also fails before the year 1000 where the platform writes the
  year as the plain number: the checkpoints of 0100-01-01 are then dated 100-01-02 and
  so on, which is not the form YYYY-MM-DD.
\<close>

theorem make_revision_dates_counterexample:
  "make_revision_dates True ''9999-12-31'' = Inl OverflowError
   \<and> make_revision_dates False ''9999-12-31'' = Inl OverflowError
   \<and> make_revision_dates False ''0100-01-01'' =
       Inr [(''24H'', \<lparr>date = ''100-01-02'', completed = Some (PBool False)\<rparr>),
            (''3Days'', \<lparr>date = ''100-01-04'', completed = Some (PBool False)\<rparr>),
            (''1Week'', \<lparr>date = ''100-01-08'', completed = Some (PBool False)\<rparr>),
            (''1Month'', \<lparr>date = ''100-01-31'', completed = Some (PBool False)\<rparr>)]"
proof -
  have p: "strptime ''9999-12-31'' = Inr (9999, 12, 31)"
    by (simp add: strptime_eval)
  have "date_less (9999, 12, 1) (9999, 12, 31)" by simp
  with p have "make_revision_dates zero_fill ''9999-12-31'' = Inl OverflowError" for zero_fill
    by (rule make_revision_dates_overflow)
  with early_year_schedule show ?thesis by simp
qed

text \<open>
  C1 (amended): for every date \<open>D\<close> of the calendar that is no later than 9999-12-01 and
  whose year is at least 1000 (or any year from 1 on, where the platform fills the year
  with zeros), written in the form YYYY-MM-DD, \<open>make_revision_dates\<close> reads the text as
  \<open>D\<close> and returns exactly the four checkpoints 24H, 3Days, 1Week, 1Month, in this
  order, dated in the form YYYY-MM-DD 1, 3, 7 and 30 calendar days after \<open>D\<close> (day
  numbers \<open>toordinal D\<close> plus 1, 3, 7, 30), each with \<open>completed\<close> false.
\<close>

theorem make_revision_dates_schedule:
  assumes "valid_date D" and "\<not> date_less (9999, 12, 1) D" and "zero_fill \<or> 1000 \<le> fst D"
  shows "strptime (yyyy_mm_dd D) = Inr D
         \<and> make_revision_dates zero_fill (yyyy_mm_dd D) =
           Inr [(''24H'', \<lparr>date = yyyy_mm_dd ((next_day ^^ 1) D), completed = Some (PBool False)\<rparr>),
                (''3Days'', \<lparr>date = yyyy_mm_dd ((next_day ^^ 3) D), completed = Some (PBool False)\<rparr>),
                (''1Week'', \<lparr>date = yyyy_mm_dd ((next_day ^^ 7) D), completed = Some (PBool False)\<rparr>),
                (''1Month'', \<lparr>date = yyyy_mm_dd ((next_day ^^ 30) D), completed = Some (PBool False)\<rparr>)]
         \<and> map (\<lambda>k. toordinal ((next_day ^^ k) D)) [1, 3, 7, 30]
             = map (\<lambda>k. toordinal D + int k) [1, 3, 7, 30]"
proof -
  have p: "strptime (yyyy_mm_dd D) = Inr D"
    using assms(1) by (rule strptime_yyyy_mm_dd)
  have c: "calendar_day D"
    using assms(1) by (rule valid_calendar_day)
  have r: "toordinal D + int 30 \<le> MAXORDINAL"
    using schedule_in_range [OF c assms(2)] by simp
  have a: "add_days D (Suc 0) = Inr (next_day D)" "add_days D 3 = Inr ((next_day ^^ 3) D)"
    "add_days D 7 = Inr ((next_day ^^ 7) D)" "add_days D 30 = Inr ((next_day ^^ 30) D)"
    by (simp_all add: add_days_in_range [OF r])
  have f: "strftime zero_fill ((next_day ^^ k) D) = yyyy_mm_dd ((next_day ^^ k) D)" if "k \<le> 30" for k
    using c r that assms(3) by (rule strftime_days_later)
  have f1: "strftime zero_fill (next_day D) = yyyy_mm_dd (next_day D)"
    using f [of 1] by simp
  have o: "toordinal ((next_day ^^ k) D) = toordinal D + int k" for k
    using c by (simp add: days_later)
  have o1: "toordinal (next_day D) = toordinal D + 1"
    using o [of 1] by simp
  show ?thesis
    by (simp add: make_revision_dates_def bind_result_def p a f f1 o o1)
qed

theorem make_revision_dates_schedule_witness:
  "valid_date (2025, 1, 10) \<and> \<not> date_less (9999, 12, 1) (2025, 1, 10)
   \<and> 1000 \<le> fst ((2025, 1, 10) :: date)
   \<and> yyyy_mm_dd (2025, 1, 10) = ''2025-01-10''
   \<and> make_revision_dates False ''2025-01-10'' =
       Inr [(''24H'', \<lparr>date = ''2025-01-11'', completed = Some (PBool False)\<rparr>),
            (''3Days'', \<lparr>date = ''2025-01-13'', completed = Some (PBool False)\<rparr>),
            (''1Week'', \<lparr>date = ''2025-01-17'', completed = Some (PBool False)\<rparr>),
            (''1Month'', \<lparr>date = ''2025-02-09'', completed = Some (PBool False)\<rparr>)]"
proof -
  have v: "valid_date (2025, 1, 10)" by (simp add: days_in_month_def)
  have r: "\<not> date_less (9999, 12, 1) (2025, 1, 10)" by simp
  have y: "False \<or> 1000 \<le> fst ((2025, 1, 10) :: date)" by simp
  have n: "(next_day ^^ 1) (2025, 1, 10) = (2025, 1, 11)"
    "(next_day ^^ 3) (2025, 1, 10) = (2025, 1, 13)"
    "(next_day ^^ 7) (2025, 1, 10) = (2025, 1, 17)"
    "(next_day ^^ 30) (2025, 1, 10) = (2025, 2, 9)"
    by (simp_all add: eval_nat_numeral days_in_month_def is_leap_def)
  have d: "yyyy_mm_dd (2025, 1, 10) = ''2025-01-10''"
    "yyyy_mm_dd (2025, 1, 11) = ''2025-01-11''" "yyyy_mm_dd (2025, 1, 13) = ''2025-01-13''"
    "yyyy_mm_dd (2025, 1, 17) = ''2025-01-17''" "yyyy_mm_dd (2025, 2, 9) = ''2025-02-09''"
    by (simp_all add: yyyy_mm_dd_def digit_char_def)
  from make_revision_dates_schedule [OF v r y, unfolded n d] v r d(1) show ?thesis
    by simp
qed


section \<open>C2: the status of a checkpoint\<close>

lemma style_of_inj: "style_of a = style_of b \<Longrightarrow> a = b"
  by (cases a; cases b) simp_all

text \<open>
  C2: for every checkpoint whose date text reads as the date \<open>d\<close>, and every \<open>today\<close>,
  the colour that \<open>_fill_table\<close> gives the checkpoint is the colour of the status that the
  priority rules give: Completed when the flag is true, whatever the date; otherwise
  Overdue when \<open>d\<close> is before \<open>today\<close>; otherwise DueToday when \<open>d\<close> is \<open>today\<close>;
  otherwise Upcoming. The four colours differ, so the colour tells the status.
\<close>

theorem label_style_classify:
  assumes "strptime (date r) = Inr d"
  shows "label_style r today = Inr (style_of (classify_spec (get_completed (completed r)) d today))"
  using assms by (simp add: label_style_def bind_result_def classify_spec_def)

theorem label_style_classify_witness:
  "strptime (date \<lparr>date = ''2025-01-11'', completed = Some (PBool False)\<rparr>) = Inr (2025, 1, 11)
   \<and> label_style \<lparr>date = ''2025-01-11'', completed = Some (PBool False)\<rparr> (2025, 1, 12)
       = Inr (Some ''color: red; font-weight:600'')
   \<and> classify_spec False (2025, 1, 11) (2025, 1, 12) = Overdue"
proof -
  have p: "strptime (date \<lparr>date = ''2025-01-11'', completed = Some (PBool False)\<rparr>) = Inr (2025, 1, 11)"
    by (simp add: strptime_eval)
  have c: "classify_spec False (2025, 1, 11) (2025, 1, 12) = Overdue"
    by (simp add: classify_spec_def)
  from label_style_classify [OF p, of "(2025, 1, 12)"] p c show ?thesis
    by (simp add: get_completed_def)
qed


section \<open>C3 and C10: toggling a revision\<close>

lemma update_same_keys:
  assumes "map_of al k = Some r"
  shows "map fst (AList.update k v al) = map fst al"
proof -
  from assms have "k \<in> fst ` set al" by (metis map_of_eq_None_iff option.distinct(1))
  then show ?thesis by (simp add: update_keys)
qed

lemma update_same_dates:
  assumes "map_of al k = Some r" and "date v = date r"
  shows "map (\<lambda>(k, r). date r) (AList.update k v al) = map (\<lambda>(k, r). date r) al"
  using assms by (induction al) (auto split: if_splits)

lemma update_same_others:
  assumes "map_of al k = Some r"
  shows "filter (\<lambda>(k', r). k' \<noteq> k) (AList.update k v al) = filter (\<lambda>(k', r). k' \<noteq> k) al"
  using assms by (induction al) (auto split: if_splits)

lemma same_but_flag_refl: "same_but_flag key n n"
  by (simp add: same_but_flag_def)

lemma same_but_flag_update:
  assumes "map_of (revisions n) key = Some r"
  shows "same_but_flag key n (n\<lparr>revisions := AList.update key (r\<lparr>completed := c\<rparr>) (revisions n)\<rparr>)"
  using assms
  by (simp add: same_but_flag_def update_same_keys update_same_dates update_same_others)

lemma toggle_first_absent:
  assumes "nid \<notin> note_id ` set ns"
  shows "toggle_first nid key ns = Inr None"
  using assms by (induction ns) auto

lemma toggle_first_at:
  assumes "nid \<notin> note_id ` set pre" and "note_id n = nid"
  shows "toggle_first nid key (pre @ n # post) =
           (case map_of (revisions n) key of
              None \<Rightarrow> Inl KeyError
            | Some r \<Rightarrow>
                Inr (Some (pre @ n\<lparr>revisions :=
                    AList.update key (r\<lparr>completed := Some (PBool (\<not> get_completed (completed r)))\<rparr>)
                      (revisions n)\<rparr> # post)))"
  using assms by (induction pre) (auto split: option.splits)

lemma first_with_id:
  assumes "nid \<in> note_id ` set ns"
  shows "\<exists>pre n post. ns = pre @ n # post \<and> nid \<notin> note_id ` set pre \<and> note_id n = nid"
  using assms
proof (induction ns)
  case Nil
  then show ?case by simp
next
  case (Cons a ns)
  show ?case
  proof (cases "note_id a = nid")
    case True
    then have "a # ns = [] @ a # ns \<and> nid \<notin> note_id ` set [] \<and> note_id a = nid" by simp
    then show ?thesis by blast
  next
    case False
    with Cons.prems have "nid \<in> note_id ` set ns" by auto
    from Cons.IH [OF this] obtain pre n post
      where "ns = pre @ n # post" "nid \<notin> note_id ` set pre" "note_id n = nid" by blast
    with False have "a # ns = (a # pre) @ n # post \<and> nid \<notin> note_id ` set (a # pre) \<and> note_id n = nid"
      by auto
    then show ?thesis by blast
  qed
qed

lemma nth_middle_frame:
  assumes "i < length (pre @ n # post)" and "i \<noteq> length pre"
  shows "(pre @ n' # post) ! i = (pre @ n # post) ! i"
  using assms by (auto simp: nth_append nth_Cons')

lemma toggle_notes_frame:
  assumes "toggle_first nid key ns = Inr (Some ns')"
  shows "length ns' = length ns
         \<and> (\<forall>i<length ns. same_but_flag key (ns ! i) (ns' ! i)
               \<and> (note_id (ns ! i) \<noteq> nid \<or> (\<exists>j<i. note_id (ns ! j) = nid) \<longrightarrow> ns' ! i = ns ! i))"
proof -
  have "nid \<in> note_id ` set ns"
    using assms toggle_first_absent [of nid ns key] by auto
  from first_with_id [OF this] obtain pre n post
    where ns: "ns = pre @ n # post" and pre: "nid \<notin> note_id ` set pre" and n: "note_id n = nid"
    by blast
  from assms toggle_first_at [OF pre n, of key post] ns
  obtain r where r: "map_of (revisions n) key = Some r"
    and ns': "ns' = pre @ n\<lparr>revisions :=
        AList.update key (r\<lparr>completed := Some (PBool (\<not> get_completed (completed r)))\<rparr>)
          (revisions n)\<rparr> # post"
    by (auto split: option.splits)
  have len: "length ns' = length ns" by (simp add: ns ns')
  have "same_but_flag key (ns ! i) (ns' ! i)
        \<and> (note_id (ns ! i) \<noteq> nid \<or> (\<exists>j<i. note_id (ns ! j) = nid) \<longrightarrow> ns' ! i = ns ! i)"
    if i: "i < length ns" for i
  proof (cases "i = length pre")
    case True
    have at: "ns ! i = n" by (simp add: ns True)
    have "\<not> (\<exists>j<i. note_id (ns ! j) = nid)"
    proof
      assume "\<exists>j<i. note_id (ns ! j) = nid"
      then obtain j where j: "j < length pre" "note_id (ns ! j) = nid" using True by blast
      then have "ns ! j \<in> set pre" by (simp add: ns nth_append)
      with j(2) pre show False by force
    qed
    moreover have "same_but_flag key (ns ! i) (ns' ! i)"
      using same_but_flag_update [OF r] by (simp add: ns ns' True)
    ultimately show ?thesis using at n by auto
  next
    case False
    with i have "ns' ! i = ns ! i" unfolding ns ns' by (rule nth_middle_frame)
    then show ?thesis by (simp add: same_but_flag_refl)
  qed
  with len show ?thesis by blast
qed

text \<open>
  C3: when no note has the identifier, \<open>toggle_revision\<close> leaves the window as it is
  (notes and file). In every case the collection keeps its length and order, and each
  note keeps its identifier, subject, code, completion date, labels, target dates and
  the entries under other labels; a note with another identifier, or one that comes
  after a note with this identifier, is not changed at all.
\<close>

theorem toggle_revision_frame:
  "(nid \<notin> note_id ` set (window_notes w) \<longrightarrow> toggle_revision nid key w = (NoDialog, w))
   \<and> length (window_notes (snd (toggle_revision nid key w))) = length (window_notes w)
   \<and> (\<forall>i<length (window_notes w).
         same_but_flag key (window_notes w ! i) (window_notes (snd (toggle_revision nid key w)) ! i)
         \<and> (note_id (window_notes w ! i) \<noteq> nid \<or> (\<exists>j<i. note_id (window_notes w ! j) = nid)
              \<longrightarrow> window_notes (snd (toggle_revision nid key w)) ! i = window_notes w ! i))"
proof (cases "toggle_first nid key (window_notes w)")
  case (Inl e)
  then have same: "toggle_revision nid key w = (Raised e, w)" by (simp add: toggle_revision_def)
  have "nid \<in> note_id ` set (window_notes w)"
    using Inl toggle_first_absent [of nid "window_notes w" key] by auto
  then show ?thesis by (simp add: same same_but_flag_refl)
next
  case (Inr res)
  show ?thesis
  proof (cases res)
    case None
    with Inr have "toggle_revision nid key w = (NoDialog, w)" by (simp add: toggle_revision_def)
    then show ?thesis by (simp add: same_but_flag_refl)
  next
    case (Some ns')
    with Inr have t: "toggle_first nid key (window_notes w) = Inr (Some ns')" by simp
    then have w': "window_notes (snd (toggle_revision nid key w)) = ns'"
      by (simp add: toggle_revision_def save_notes_def)
    have "nid \<in> note_id ` set (window_notes w)"
      using t toggle_first_absent [of nid "window_notes w" key] by auto
    with toggle_notes_frame [OF t] show ?thesis unfolding w' by blast
  qed
qed

theorem toggle_revision_frame_witness:
  "18 \<notin> note_id ` set (window_notes sample_window)
   \<and> toggle_revision 18 ''24H'' sample_window = (NoDialog, sample_window)
   \<and> 0 < length (window_notes sample_window)
   \<and> same_but_flag ''24H'' (window_notes sample_window ! 0)
        (window_notes (snd (toggle_revision 17 ''24H'' sample_window)) ! 0)"
proof -
  have a: "18 \<notin> note_id ` set (window_notes sample_window)"
    by (simp add: sample_window_def sample_note_def)
  have b: "0 < length (window_notes sample_window)"
    by (simp add: sample_window_def)
  from toggle_revision_frame [of 18 sample_window "''24H''"] a
  have c: "toggle_revision 18 ''24H'' sample_window = (NoDialog, sample_window)" by blast
  from toggle_revision_frame [of 17 sample_window "''24H''"] b
  have d: "same_but_flag ''24H'' (window_notes sample_window ! 0)
        (window_notes (snd (toggle_revision 17 ''24H'' sample_window)) ! 0)" by blast
  from a b c d show ?thesis by blast
qed


lemma find_first_split:
  assumes "find P xs = Some x"
  shows "\<exists>pre post. xs = pre @ x # post \<and> (\<forall>y\<in>set pre. \<not> P y) \<and> P x"
  using assms
proof (induction xs)
  case Nil
  then show ?case by simp
next
  case (Cons a xs)
  show ?case
  proof (cases "P a")
    case True
    with Cons.prems have "a = x" by simp
    with True have "a # xs = [] @ x # xs \<and> (\<forall>y\<in>set []. \<not> P y) \<and> P x" by simp
    then show ?thesis by blast
  next
    case False
    with Cons.prems have "find P xs = Some x" by simp
    from Cons.IH [OF this] obtain pre post
      where "xs = pre @ x # post" "\<forall>y\<in>set pre. \<not> P y" "P x" by blast
    with False have "a # xs = (a # pre) @ x # post \<and> (\<forall>y\<in>set (a # pre). \<not> P y) \<and> P x" by simp
    then show ?thesis by blast
  qed
qed

lemma find_at_split:
  assumes "\<forall>y\<in>set pre. \<not> P y" and "P x"
  shows "find P (pre @ x # post) = Some x"
  using assms by (induction pre) auto

lemma toggle_revision_notes:
  assumes "toggle_first nid key (window_notes w) = Inr (Some ns)"
  shows "window_notes (snd (toggle_revision nid key w)) = ns"
  using assms by (simp add: toggle_revision_def save_notes_def)

text \<open>
  C10: when the first note with the identifier has a revision under the label whose
  flag is a boolean \<open>b\<close>, two toggles in a row give back the note collection as it was,
  and after one toggle the flag is the boolean \<open>\<not> b\<close>.
\<close>

theorem toggle_revision_involution:
  assumes "find (\<lambda>n. note_id n = nid) (window_notes w) = Some n"
    and "map_of (revisions n) key = Some r"
    and "completed r = Some (PBool b)"
  shows "window_notes (snd (toggle_revision nid key (snd (toggle_revision nid key w))))
           = window_notes w
         \<and> (\<exists>n1 r1. find (\<lambda>n. note_id n = nid) (window_notes (snd (toggle_revision nid key w))) = Some n1
               \<and> map_of (revisions n1) key = Some r1 \<and> completed r1 = Some (PBool (\<not> b)))"
proof -
  from find_first_split [OF assms(1)] obtain pre post
    where ns: "window_notes w = pre @ n # post" and pre: "\<forall>y\<in>set pre. note_id y \<noteq> nid"
      and n: "note_id n = nid" by blast
  from pre have pre': "nid \<notin> note_id ` set pre" by auto
  define r1 where "r1 = r\<lparr>completed := Some (PBool (\<not> b))\<rparr>"
  define n1 where "n1 = n\<lparr>revisions := AList.update key r1 (revisions n)\<rparr>"
  have flag: "get_completed (completed r) = b" "get_completed (completed r1) = (\<not> b)"
    by (simp_all add: assms(3) r1_def get_completed_def)
  have t1: "toggle_first nid key (window_notes w) = Inr (Some (pre @ n1 # post))"
    unfolding ns toggle_first_at [OF pre' n] by (simp add: assms(2) flag n1_def r1_def)
  then have w1: "window_notes (snd (toggle_revision nid key w)) = pre @ n1 # post"
    by (rule toggle_revision_notes)
  have n1: "note_id n1 = nid" by (simp add: n1_def n)
  have look: "map_of (revisions n1) key = Some r1" by (simp add: n1_def update_conv')
  have again: "r1\<lparr>completed := Some (PBool b)\<rparr> = r" by (simp add: r1_def assms(3))
  have "AList.update key r (revisions n1) = revisions n"
    by (simp add: n1_def update_triv [OF assms(2)])
  then have n2: "n1\<lparr>revisions := AList.update key r (revisions n1)\<rparr> = n" by (simp add: n1_def)
  have "toggle_first nid key (pre @ n1 # post) = Inr (Some (pre @ n # post))"
    unfolding toggle_first_at [OF pre' n1] by (simp add: look flag again n2)
  then have "toggle_first nid key (window_notes (snd (toggle_revision nid key w)))
      = Inr (Some (pre @ n # post))"
    by (simp only: w1)
  then have "window_notes (snd (toggle_revision nid key (snd (toggle_revision nid key w))))
      = pre @ n # post"
    by (rule toggle_revision_notes)
  moreover have "find (\<lambda>n. note_id n = nid) (pre @ n1 # post) = Some n1"
    using pre n1 by (rule find_at_split)
  moreover have "completed r1 = Some (PBool (\<not> b))" by (simp add: r1_def)
  ultimately show ?thesis using ns w1 look by auto
qed

theorem toggle_revision_involution_witness:
  "find (\<lambda>n. note_id n = 17) (window_notes sample_window) = Some sample_note
   \<and> map_of (revisions sample_note) ''3Days'' = Some \<lparr>date = ''2025-01-13'', completed = Some (PBool False)\<rparr>
   \<and> completed \<lparr>date = ''2025-01-13'', completed = Some (PBool False)\<rparr> = Some (PBool False)
   \<and> window_notes (snd (toggle_revision 17 ''3Days'' (snd (toggle_revision 17 ''3Days'' sample_window))))
       = window_notes sample_window"
proof -
  have a: "find (\<lambda>n. note_id n = 17) (window_notes sample_window) = Some sample_note"
    by (simp add: sample_window_def sample_note_def)
  have b: "map_of (revisions sample_note) ''3Days''
      = Some \<lparr>date = ''2025-01-13'', completed = Some (PBool False)\<rparr>"
    by (simp add: sample_note_def)
  have c: "completed \<lparr>date = ''2025-01-13'', completed = Some (PBool False)\<rparr> = Some (PBool False)"
    by simp
  from toggle_revision_involution [OF a b c] a b c show ?thesis by blast
qed


section \<open>C4: the statistics\<close>

lemma strptime_sample: "strptime ''2025-01-10'' = Inr (2025, 1, 10)"
  by (simp add: strptime_eval)

lemma sample_schedule:
  "make_revision_dates zero_fill ''2025-01-10'' = Inr (revisions sample_note)"
proof -
  have r: "toordinal (2025, 1, 10) + int 30 \<le> MAXORDINAL"
    by (simp add: MAXORDINAL_def days_before_year_def days_before_month_def)
  have n: "(next_day ^^ Suc 0) (2025, 1, 10) = (2025, 1, 11)"
    "(next_day ^^ 3) (2025, 1, 10) = (2025, 1, 13)"
    "(next_day ^^ 7) (2025, 1, 10) = (2025, 1, 17)"
    "(next_day ^^ 30) (2025, 1, 10) = (2025, 2, 9)"
    by (simp_all add: eval_nat_numeral days_in_month_def is_leap_def)
  have a: "add_days (2025, 1, 10) (Suc 0) = Inr (2025, 1, 11)"
    "add_days (2025, 1, 10) 3 = Inr (2025, 1, 13)"
    "add_days (2025, 1, 10) 7 = Inr (2025, 1, 17)"
    "add_days (2025, 1, 10) 30 = Inr (2025, 2, 9)"
    by (simp_all add: add_days_in_range [OF r] n days_in_month_def is_leap_def)
  have f: "strftime zero_fill (2025, m, d) = yyyy_mm_dd (2025, m, d)" for m d
    by (rule strftime_form) simp_all
  have d: "yyyy_mm_dd (2025, 1, 11) = ''2025-01-11''" "yyyy_mm_dd (2025, 1, 13) = ''2025-01-13''"
    "yyyy_mm_dd (2025, 1, 17) = ''2025-01-17''" "yyyy_mm_dd (2025, 2, 9) = ''2025-02-09''"
    by (simp_all add: yyyy_mm_dd_def digit_char_def)
  show ?thesis
    by (simp add: make_revision_dates_def bind_result_def strptime_sample a f d sample_note_def)
qed

lemma make_revision_dates_shape:
  assumes "make_revision_dates zero_fill s = Inr revs"
  shows "\<exists>a b c d. revs =
           [(''24H'', \<lparr>date = a, completed = Some (PBool False)\<rparr>),
            (''3Days'', \<lparr>date = b, completed = Some (PBool False)\<rparr>),
            (''1Week'', \<lparr>date = c, completed = Some (PBool False)\<rparr>),
            (''1Month'', \<lparr>date = d, completed = Some (PBool False)\<rparr>)]"
  using assms unfolding make_revision_dates_def bind_result_def
  by (auto split: sum.splits)

lemma fold_count_revision:
  "fold count_revision rs (p, c) =
     (p + length (filter (\<lambda>r. \<not> get_completed (completed r)) rs),
      c + length (filter (\<lambda>r. get_completed (completed r)) rs))"
  by (induction rs arbitrary: p c) (simp_all add: count_revision_def)

lemma fold_count_notes:
  "fold (\<lambda>n acc. fold count_revision (map snd (revisions n)) acc) ns (p, c) =
     (p + pending_count ns, c + completed_count ns)"
proof (induction ns arbitrary: p c)
  case Nil
  show ?case by (simp add: pending_count_def completed_count_def)
next
  case (Cons n ns)
  have "pending_count (n # ns)
      = length (filter (\<lambda>r. \<not> get_completed (completed r)) (map snd (revisions n))) + pending_count ns"
    by (simp add: pending_count_def)
  moreover have "completed_count (n # ns)
      = length (filter (\<lambda>r. get_completed (completed r)) (map snd (revisions n))) + completed_count ns"
    by (simp add: completed_count_def)
  ultimately show ?case
    by (simp add: fold_count_revision Cons.IH)
qed

lemma stats_eq: "stats ns = (length ns, pending_count ns, completed_count ns)"
  by (simp add: stats_def fold_count_notes)

lemma stats_fresh_note:
  assumes "make_revision_dates zero_fill s = Inr (revisions n)"
    and "key \<in> set [''24H'', ''3Days'', ''1Week'', ''1Month'']"
  shows "stats [n] = (1, 4, 0)"
    and "stats (window_notes (snd (toggle_revision (note_id n) key \<lparr>window_notes = [n], data_file = f\<rparr>)))
           = (1, 3, 1)"
proof -
  from make_revision_dates_shape [OF assms(1)] obtain a b c d where revs: "revisions n =
           [(''24H'', \<lparr>date = a, completed = Some (PBool False)\<rparr>),
            (''3Days'', \<lparr>date = b, completed = Some (PBool False)\<rparr>),
            (''1Week'', \<lparr>date = c, completed = Some (PBool False)\<rparr>),
            (''1Month'', \<lparr>date = d, completed = Some (PBool False)\<rparr>)]"
    by blast
  show "stats [n] = (1, 4, 0)"
    by (simp add: stats_eq pending_count_def completed_count_def revs get_completed_def)
  from assms(2) have "key = ''24H'' \<or> key = ''3Days'' \<or> key = ''1Week'' \<or> key = ''1Month''"
    by simp
  then show "stats (window_notes (snd (toggle_revision (note_id n) key \<lparr>window_notes = [n], data_file = f\<rparr>)))
           = (1, 3, 1)"
    by (elim disjE)
      (simp_all add: toggle_revision_def save_notes_def revs stats_eq pending_count_def
        completed_count_def get_completed_def)
qed

text \<open>
  C4: the counters of \<open>_update_stats\<close> are the number of notes, the number of revisions
  over all notes whose flag is not true, and the number whose flag is true. For one note
  fresh from \<open>make_revision_dates\<close> they are (1, 4, 0), and (1, 3, 1) after one of its
  four revisions is toggled.
\<close>

theorem stats_counts:
  "stats ns =
     (length ns,
      length (filter (\<lambda>r. \<not> get_completed (completed r)) (concat (map (\<lambda>n. map snd (revisions n)) ns))),
      length (filter (\<lambda>r. get_completed (completed r)) (concat (map (\<lambda>n. map snd (revisions n)) ns))))
   \<and> (make_revision_dates zero_fill s = Inr (revisions n) \<and> key \<in> set [''24H'', ''3Days'', ''1Week'', ''1Month'']
        \<longrightarrow> stats [n] = (1, 4, 0)
          \<and> stats (window_notes (snd (toggle_revision (note_id n) key
                \<lparr>window_notes = [n], data_file = f\<rparr>))) = (1, 3, 1))"
  using stats_fresh_note(1) [of zero_fill s n key] stats_fresh_note(2) [of zero_fill s n key f]
  by (simp add: stats_eq pending_count_def completed_count_def)

theorem stats_counts_witness:
  "make_revision_dates False ''2025-01-10'' = Inr (revisions sample_note)
   \<and> ''1Week'' \<in> set [''24H'', ''3Days'', ''1Week'', ''1Month'']
   \<and> stats [sample_note] = (1, 4, 0)
   \<and> stats (window_notes (snd (toggle_revision (note_id sample_note) ''1Week''
         \<lparr>window_notes = [sample_note], data_file = None\<rparr>))) = (1, 3, 1)"
proof -
  have k: "''1Week'' \<in> set [''24H'', ''3Days'', ''1Week'', ''1Month'']" by simp
  from stats_counts [of "[sample_note]" False "''2025-01-10''" sample_note "''1Week''" None]
    sample_schedule [of False] k
  show ?thesis by blast
qed


section \<open>C5: the CSV export\<close>

lemma map_result_all:
  assumes "\<forall>x\<in>set xs. f x = Inr (g x)"
  shows "map_result f xs = Inr (map g xs)"
  using assms by (induction xs) (simp_all add: bind_result_def)

lemma csv_row_fields:
  assumes "\<forall>k\<in>set revision_keys. map_of (revisions n) k \<noteq> None"
  shows "csv_row n = Inr (csv_fields n)"
proof -
  from assms obtain r1 r2 r3 r4 where
    "map_of (revisions n) ''24H'' = Some r1" "map_of (revisions n) ''3Days'' = Some r2"
    "map_of (revisions n) ''1Week'' = Some r3" "map_of (revisions n) ''1Month'' = Some r4"
    by (auto simp: revision_keys_def)
  then show ?thesis
    by (simp add: csv_row_def csv_pair_def getitem_def bind_result_def csv_fields_def
        revision_keys_def)
qed

lemma replace_Nil: "replace c new [] = []"
  by (simp add: replace_def)

lemma replace_Cons: "replace c new (x # s) = (if x = c then new else [x]) @ replace c new s"
  by (simp add: replace_def)

lemma undouble_doubled: "undouble (replace dquote [dquote, dquote] s) = s"
proof (induction s)
  case Nil
  show ?case by (simp add: replace_Nil)
next
  case (Cons x s)
  show ?case
  proof (cases "x = dquote")
    case True
    with Cons show ?thesis by (simp add: replace_Cons)
  next
    case False
    show ?thesis
    proof (cases "replace dquote [dquote, dquote] s")
      case Nil
      with Cons have "s = []" by simp
      with False show ?thesis by (simp add: replace_Cons replace_Nil)
    next
      case (Cons b t)
      with Cons.IH False show ?thesis by (simp add: replace_Cons)
    qed
  qed
qed

lemma sample_csv:
  "export_csv ''out.csv'' [sample_note] =
     Inr (Information ''Export'' ''CSV saved to: out.csv'',
          Some (csv_header @ [newline]
            @ join '','' (map quoted
                [''Test '' @ [dquote, dquote] @ ''Quote'' @ [dquote, dquote], ''N1'', ''2025-01-10'',
                 ''2025-01-11'', ''False'', ''2025-01-13'', ''False'',
                 ''2025-01-17'', ''False'', ''2025-02-09'', ''False''])))"
  by (simp add: export_csv_def bind_result_def csv_row_def csv_pair_def getitem_def
      sample_note_def csv_line_def quoted_def status_text_def replace_def dquote_def)

text \<open>
  C5, as stated, fails on the header row: its fields are written without double quotes.
  The first line of the export of the sample note is the header, and its first field is
  the bare word Subject.
\<close>

theorem export_csv_counterexample:
  "export_csv ''out.csv'' [sample_note] =
     Inr (Information ''Export'' ''CSV saved to: out.csv'',
          Some (csv_header @ [newline]
            @ join '','' (map quoted
                [''Test '' @ [dquote, dquote] @ ''Quote'' @ [dquote, dquote], ''N1'', ''2025-01-10'',
                 ''2025-01-11'', ''False'', ''2025-01-13'', ''False'',
                 ''2025-01-17'', ''False'', ''2025-02-09'', ''False''])))
   \<and> hd (split CHR '','' csv_header) = ''Subject''
   \<and> \<not> enclosed ''Subject''"
  by (simp add: sample_csv) (simp add: csv_header_def enclosed_def dquote_def)

text \<open>
  C5 (amended): for every non-empty collection whose notes have the four labels, the
  export is the header line (unquoted, naming subject, code, completion date and then
  date and status for 24H, 3Days, 1Week, 1Month), followed by one line per note in
  collection order; every field of a note's line is enclosed in double quotes; the fields
  are the subject and the code with each double quote doubled (so that reading pairs as
  one quote gives the text back), then the completion date and the date and status of
  each label, as they are.
\<close>

theorem export_csv_rows:
  assumes "ns \<noteq> []"
    and "\<forall>n\<in>set ns. \<forall>k\<in>set revision_keys. map_of (revisions n) k \<noteq> None"
  shows "export_csv fname ns =
           Inr (Information ''Export'' (''CSV saved to: '' @ fname),
                Some (join [newline]
                  (join '','' [''Subject'', ''Note Code'', ''Completion Date'', ''24H Date'', ''24H Status'',
                      ''3Days Date'', ''3Days Status'', ''1Week Date'', ''1Week Status'',
                      ''1Month Date'', ''1Month Status'']
                   # map (\<lambda>n. join '','' (map quoted (csv_fields n))) ns)))
         \<and> (\<forall>n\<in>set ns. \<forall>f\<in>set (map quoted (csv_fields n)). enclosed f)
         \<and> (\<forall>n\<in>set ns. undouble (csv_fields n ! 0) = subjectName n
                \<and> undouble (csv_fields n ! 1) = noteCode n)"
proof -
  have rows: "map_result csv_row ns = Inr (map csv_fields ns)"
    using assms(2) by (intro map_result_all) (simp add: csv_row_fields)
  have line: "csv_line = (\<lambda>row. join '','' (map quoted row))"
    by (rule ext) (simp add: csv_line_def quoted_def [abs_def])
  have header: "csv_header = join '','' [''Subject'', ''Note Code'', ''Completion Date'', ''24H Date'',
      ''24H Status'', ''3Days Date'', ''3Days Status'', ''1Week Date'', ''1Week Status'',
      ''1Month Date'', ''1Month Status'']"
    by (simp add: csv_header_def)
  have "export_csv fname ns =
           Inr (Information ''Export'' (''CSV saved to: '' @ fname),
                Some (join [newline] (csv_header # map (\<lambda>n. join '','' (map quoted (csv_fields n))) ns)))"
    using assms(1) by (simp add: export_csv_def rows bind_result_def line comp_def)
  then have one: "export_csv fname ns =
           Inr (Information ''Export'' (''CSV saved to: '' @ fname),
                Some (join [newline]
                  (join '','' [''Subject'', ''Note Code'', ''Completion Date'', ''24H Date'', ''24H Status'',
                      ''3Days Date'', ''3Days Status'', ''1Week Date'', ''1Week Status'',
                      ''1Month Date'', ''1Month Status'']
                   # map (\<lambda>n. join '','' (map quoted (csv_fields n))) ns)))"
    by (simp only: header)
  have two: "\<forall>n\<in>set ns. \<forall>f\<in>set (map quoted (csv_fields n)). enclosed f"
    by (auto simp: quoted_def enclosed_def)
  have three: "\<forall>n\<in>set ns. undouble (csv_fields n ! 0) = subjectName n
                \<and> undouble (csv_fields n ! 1) = noteCode n"
    by (simp add: csv_fields_def undouble_doubled)
  from one two three show ?thesis by blast
qed

theorem export_csv_rows_witness:
  "[sample_note] \<noteq> []
   \<and> list_all (\<lambda>k. map_of (revisions sample_note) k \<noteq> None) revision_keys
   \<and> join '','' (map quoted (csv_fields sample_note)) =
       join '','' (map quoted
          [''Test '' @ [dquote, dquote] @ ''Quote'' @ [dquote, dquote], ''N1'', ''2025-01-10'',
           ''2025-01-11'', ''False'', ''2025-01-13'', ''False'',
           ''2025-01-17'', ''False'', ''2025-02-09'', ''False''])
   \<and> export_csv ''out.csv'' [sample_note] =
       Inr (Information ''Export'' (''CSV saved to: '' @ ''out.csv''),
            Some (join [newline]
              (join '','' [''Subject'', ''Note Code'', ''Completion Date'', ''24H Date'', ''24H Status'',
                  ''3Days Date'', ''3Days Status'', ''1Week Date'', ''1Week Status'',
                  ''1Month Date'', ''1Month Status'']
               # map (\<lambda>n. join '','' (map quoted (csv_fields n))) [sample_note])))"
proof -
  have a: "[sample_note] \<noteq> []" by simp
  have b: "\<forall>n\<in>set [sample_note]. \<forall>k\<in>set revision_keys. map_of (revisions n) k \<noteq> None"
    by (simp add: revision_keys_def sample_note_def)
  have c: "csv_fields sample_note =
          [''Test '' @ [dquote, dquote] @ ''Quote'' @ [dquote, dquote], ''N1'', ''2025-01-10'',
           ''2025-01-11'', ''False'', ''2025-01-13'', ''False'',
           ''2025-01-17'', ''False'', ''2025-02-09'', ''False'']"
    by (simp add: csv_fields_def sample_note_def revision_keys_def status_text_def replace_def
        dquote_def)
  have b': "list_all (\<lambda>k. map_of (revisions sample_note) k \<noteq> None) revision_keys"
    by (simp add: revision_keys_def sample_note_def)
  from export_csv_rows [OF a b, of "''out.csv''"] have
    "export_csv ''out.csv'' [sample_note] =
       Inr (Information ''Export'' (''CSV saved to: '' @ ''out.csv''),
            Some (join [newline]
              (join '','' [''Subject'', ''Note Code'', ''Completion Date'', ''24H Date'', ''24H Status'',
                  ''3Days Date'', ''3Days Status'', ''1Week Date'', ''1Week Status'',
                  ''1Month Date'', ''1Month Status'']
               # map (\<lambda>n. join '','' (map quoted (csv_fields n))) [sample_note])))"
    by blast
  with a b' c show ?thesis by (simp only: simp_thms)
qed


section \<open>C6: the PDF export\<close>

lemma pdf_row_cells:
  assumes "\<forall>k\<in>set revision_keys. \<exists>r v. map_of (revisions n) k = Some r \<and> completed r = Some v"
  shows "pdf_row n = Inr (pdf_cells n)"
proof -
  from assms obtain r1 v1 r2 v2 r3 v3 r4 v4 where
    "map_of (revisions n) ''24H'' = Some r1" "completed r1 = Some v1"
    "map_of (revisions n) ''3Days'' = Some r2" "completed r2 = Some v2"
    "map_of (revisions n) ''1Week'' = Some r3" "completed r3 = Some v3"
    "map_of (revisions n) ''1Month'' = Some r4" "completed r4 = Some v4"
    unfolding revision_keys_def by (metis list.set_intros(1) list.set_intros(2))
  then show ?thesis
    by (simp add: pdf_row_def pdf_cell_def getitem_def bind_result_def pdf_cells_def
        revision_keys_def get_completed_def)
qed

lemma str_nat_digit: "n < 10 \<Longrightarrow> str_nat n = [digit_char (int n)]"
  by (simp add: str_nat.simps)

lemma sample_pdf:
  "export_pdf ''out.pdf'' ''2025-01-12 09:00:00'' [sample_note] =
     Inr (Information ''Export'' ''PDF saved to: out.pdf'',
          Some [Paragraph (''Study Notes '' @ em_dash @ '' Revision Tracker'') ''Title'',
                Paragraph ''Generated: 2025-01-12 09:00:00'' ''Normal'',
                Spacer 1 12,
                Table [[''Code'', ''Module'', ''Completed'', ''24H'', ''3 Days'', ''1 Week'', ''1 Month''],
                       [''N1'', ''Test '' @ [dquote] @ ''Quote'' @ [dquote], ''2025-01-10'',
                        ''2025-01-11'', ''2025-01-13'', ''2025-01-17'', ''2025-02-09'']],
                Spacer 1 12,
                Paragraph (''Total notes: 1 '' @ em_dash @ '' Pending revisions: 4 '' @ em_dash
                  @ '' Completed revisions: 0'') ''Normal''])"
  by (simp add: export_pdf_def bind_result_def pdf_row_def pdf_cell_def getitem_def
      sample_note_def pdf_header_def pdf_summary_def pending_count_def completed_count_def
      get_completed_def str_nat_digit digit_char_def)

text \<open>
  C6, as stated, fails on the header row: the third column of the table is headed
  Completed, not Completion Date.
\<close>

theorem export_pdf_counterexample:
  "export_pdf ''out.pdf'' ''2025-01-12 09:00:00'' [sample_note] =
     Inr (Information ''Export'' ''PDF saved to: out.pdf'',
          Some [Paragraph (''Study Notes '' @ em_dash @ '' Revision Tracker'') ''Title'',
                Paragraph ''Generated: 2025-01-12 09:00:00'' ''Normal'',
                Spacer 1 12,
                Table [[''Code'', ''Module'', ''Completed'', ''24H'', ''3 Days'', ''1 Week'', ''1 Month''],
                       [''N1'', ''Test '' @ [dquote] @ ''Quote'' @ [dquote], ''2025-01-10'',
                        ''2025-01-11'', ''2025-01-13'', ''2025-01-17'', ''2025-02-09'']],
                Spacer 1 12,
                Paragraph (''Total notes: 1 '' @ em_dash @ '' Pending revisions: 4 '' @ em_dash
                  @ '' Completed revisions: 0'') ''Normal''])
   \<and> [''Code'', ''Module'', ''Completed'', ''24H'', ''3 Days'', ''1 Week'', ''1 Month'']
       \<noteq> [''Code'', ''Module'', ''Completion Date'', ''24H'', ''3 Days'', ''1 Week'', ''1 Month'']"
  by (simp add: sample_pdf)

text \<open>
  C6 (amended): for every non-empty collection whose notes have the four labels, each
  with a completed entry, the story of the PDF has one table; its header row is Code,
  Module, Completed, 24H, 3 Days, 1 Week, 1 Month; it has one row per note in collection
  order, with the code, the subject, the completion date and, for each label, the
  checkpoint's date followed by a blank and a check mark exactly when the flag is true;
  and the story ends with a line that states the total, pending and completed counts of
  the statistics.
\<close>

theorem export_pdf_story:
  assumes "ns \<noteq> []"
    and "\<forall>n\<in>set ns. \<forall>k\<in>set revision_keys. \<exists>r v. map_of (revisions n) k = Some r \<and> completed r = Some v"
  shows "export_pdf fname generated ns =
           Inr (Information ''Export'' (''PDF saved to: '' @ fname),
                Some [Paragraph (''Study Notes '' @ em_dash @ '' Revision Tracker'') ''Title'',
                      Paragraph (''Generated: '' @ generated) ''Normal'',
                      Spacer 1 12,
                      Table ([''Code'', ''Module'', ''Completed'', ''24H'', ''3 Days'', ''1 Week'', ''1 Month'']
                             # map pdf_cells ns),
                      Spacer 1 12,
                      Paragraph (case stats ns of (n_total, n_pending, n_completed) \<Rightarrow>
                          ''Total notes: '' @ str_nat n_total @ '' '' @ em_dash
                          @ '' Pending revisions: '' @ str_nat n_pending @ '' '' @ em_dash
                          @ '' Completed revisions: '' @ str_nat n_completed) ''Normal''])"
proof -
  have rows: "map_result pdf_row ns = Inr (map pdf_cells ns)"
    using assms(2) by (intro map_result_all) (simp add: pdf_row_cells)
  show ?thesis
    using assms(1)
    by (simp add: export_pdf_def rows bind_result_def pdf_header_def pdf_summary_def stats_eq)
qed

theorem export_pdf_story_witness:
  "[sample_note] \<noteq> []
   \<and> map (\<lambda>k. map_option completed (map_of (revisions sample_note) k)) revision_keys
       = [Some (Some (PBool False)), Some (Some (PBool False)), Some (Some (PBool False)),
          Some (Some (PBool False))]
   \<and> pdf_cells sample_note =
       [''N1'', ''Test '' @ [dquote] @ ''Quote'' @ [dquote], ''2025-01-10'',
        ''2025-01-11'', ''2025-01-13'', ''2025-01-17'', ''2025-02-09'']
   \<and> stats [sample_note] = (1, 4, 0)
   \<and> export_pdf ''out.pdf'' ''2025-01-12 09:00:00'' [sample_note] =
       Inr (Information ''Export'' (''PDF saved to: '' @ ''out.pdf''),
            Some [Paragraph (''Study Notes '' @ em_dash @ '' Revision Tracker'') ''Title'',
                  Paragraph (''Generated: '' @ ''2025-01-12 09:00:00'') ''Normal'',
                  Spacer 1 12,
                  Table ([''Code'', ''Module'', ''Completed'', ''24H'', ''3 Days'', ''1 Week'', ''1 Month'']
                         # map pdf_cells [sample_note]),
                  Spacer 1 12,
                  Paragraph (case stats [sample_note] of (n_total, n_pending, n_completed) \<Rightarrow>
                      ''Total notes: '' @ str_nat n_total @ '' '' @ em_dash
                      @ '' Pending revisions: '' @ str_nat n_pending @ '' '' @ em_dash
                      @ '' Completed revisions: '' @ str_nat n_completed) ''Normal''])"
proof -
  have a: "[sample_note] \<noteq> []" by simp
  have b: "\<forall>n\<in>set [sample_note]. \<forall>k\<in>set revision_keys.
         \<exists>r v. map_of (revisions n) k = Some r \<and> completed r = Some v"
    by (simp add: revision_keys_def sample_note_def)
  have c: "pdf_cells sample_note =
       [''N1'', ''Test '' @ [dquote] @ ''Quote'' @ [dquote], ''2025-01-10'',
        ''2025-01-11'', ''2025-01-13'', ''2025-01-17'', ''2025-02-09'']"
    by (simp add: pdf_cells_def sample_note_def revision_keys_def get_completed_def)
  have d: "stats [sample_note] = (1, 4, 0)"
    by (simp add: stats_eq pending_count_def completed_count_def sample_note_def get_completed_def)
  have b': "map (\<lambda>k. map_option completed (map_of (revisions sample_note) k)) revision_keys
       = [Some (Some (PBool False)), Some (Some (PBool False)), Some (Some (PBool False)),
          Some (Some (PBool False))]"
    by (simp add: revision_keys_def sample_note_def)
  from export_pdf_story [OF a b, of "''out.pdf''" "''2025-01-12 09:00:00''"] a b' c d
  show ?thesis by blast
qed


section \<open>C7: the reminders\<close>

lemma due_revisions_filter:
  assumes "\<forall>(k, r)\<in>set revs. \<not> get_completed (completed r) \<longrightarrow> (\<exists>d. strptime (date r) = Inr d)"
  shows "due_revisions code now revs =
           (map (\<lambda>(k, r). (''Revision Reminder'', code @ '' '' @ em_dash @ '' '' @ k @ '' due '' @ date r))
              (filter (\<lambda>(k, r). is_due now r) revs), None)"
  using assms
proof (induction revs)
  case Nil
  show ?case by simp
next
  case (Cons kr revs)
  obtain k r where kr: "kr = (k, r)" by (cases kr)
  from Cons.prems have rest: "\<forall>(k, r)\<in>set revs.
      \<not> get_completed (completed r) \<longrightarrow> (\<exists>d. strptime (date r) = Inr d)" by simp
  note IH = Cons.IH [OF rest]
  show ?case
  proof (cases "get_completed (completed r)")
    case True
    then show ?thesis by (simp add: kr IH is_due_def)
  next
    case False
    with Cons.prems kr obtain d where "strptime (date r) = Inr d" by auto
    with False show ?thesis by (simp add: kr IH is_due_def)
  qed
qed

lemma due_notes_concat:
  assumes "\<forall>n\<in>set ns. \<forall>(k, r)\<in>set (revisions n).
      \<not> get_completed (completed r) \<longrightarrow> (\<exists>d. strptime (date r) = Inr d)"
  shows "due_notes now ns =
           (concat (map (\<lambda>n.
              map (\<lambda>(k, r). (''Revision Reminder'',
                              noteCode n @ '' '' @ em_dash @ '' '' @ k @ '' due '' @ date r))
                (filter (\<lambda>(k, r). is_due now r) (revisions n))) ns), None)"
  using assms
proof (induction ns)
  case Nil
  show ?case by simp
next
  case (Cons n ns)
  then have "\<forall>(k, r)\<in>set (revisions n).
      \<not> get_completed (completed r) \<longrightarrow> (\<exists>d. strptime (date r) = Inr d)" by simp
  from due_revisions_filter [OF this] Cons show ?case by simp
qed

lemma check_due_revisions_off:
  "check_due_revisions False toaster now ns = ([], None)"
  "check_due_revisions enabled False now ns = ([], None)"
  by (simp_all add: check_due_revisions_def)

lemma is_due_calendar:
  assumes "strptime (date r) = Inr d" and "valid_date today"
  shows "is_due today r = (\<not> get_completed (completed r) \<and> (d = today \<or> d = next_day today))"
proof -
  have "calendar_day d"
    using assms(1) by (simp add: strptime_valid valid_calendar_day)
  moreover have "calendar_day today"
    using assms(2) by (rule valid_calendar_day)
  ultimately have "(toordinal d - toordinal today = 1) = (d = next_day today)"
    by (rule one_day_after)
  then show ?thesis by (simp add: is_due_def assms(1))
qed

lemma sample_dates:
  "strptime ''2025-01-11'' = Inr (2025, 1, 11)" "strptime ''2025-01-13'' = Inr (2025, 1, 13)"
  "strptime ''2025-01-17'' = Inr (2025, 1, 17)" "strptime ''2025-02-09'' = Inr (2025, 2, 9)"
  by (simp_all add: strptime_eval)

text \<open>
  C7: on a tick with notifications enabled and the toaster there, when the date of every
  checkpoint that is not completed is a date, the toasts shown are, note by note and
  label by label in the order of the collection, exactly those of the checkpoints that
  are due: not completed, and dated today or the day after today (the day number is one
  more, which is the next calendar day). Each toast holds the note code, the label and
  the date text. No other checkpoint gives a toast.
\<close>

theorem check_due_revisions_exact:
  assumes "\<forall>n\<in>set ns. \<forall>(k, r)\<in>set (revisions n).
      \<not> get_completed (completed r) \<longrightarrow> (\<exists>d. strptime (date r) = Inr d)"
    and "valid_date now"
  shows "check_due_revisions True True now ns =
           (concat (map (\<lambda>n.
              map (\<lambda>(k, r). (''Revision Reminder'',
                              noteCode n @ '' '' @ em_dash @ '' '' @ k @ '' due '' @ date r))
                (filter (\<lambda>(k, r). is_due now r) (revisions n))) ns), None)
         \<and> (\<forall>r d. strptime (date r) = Inr d \<longrightarrow>
               is_due now r = (\<not> get_completed (completed r) \<and> (d = now \<or> d = next_day now)))"
  using due_notes_concat [OF assms(1)] is_due_calendar [OF _ assms(2)]
  by (simp add: check_due_revisions_def)

theorem check_due_revisions_exact_witness:
  "map (\<lambda>(k, r). strptime (date r)) (revisions sample_note)
     = [Inr (2025, 1, 11), Inr (2025, 1, 13), Inr (2025, 1, 17), Inr (2025, 2, 9)]
   \<and> valid_date (2025, 1, 12)
   \<and> check_due_revisions True True (2025, 1, 12) [sample_note] =
       ([(''Revision Reminder'', ''N1 '' @ em_dash @ '' 3Days due 2025-01-13'')], None)"
proof -
  have a: "\<forall>n\<in>set [sample_note]. \<forall>(k, r)\<in>set (revisions n).
      \<not> get_completed (completed r) \<longrightarrow> (\<exists>d. strptime (date r) = Inr d)"
    by (simp add: sample_note_def sample_dates)
  have b: "valid_date (2025, 1, 12)" by (simp add: days_in_month_def)
  have c: "filter (\<lambda>(k, r). is_due (2025, 1, 12) r) (revisions sample_note)
      = [(''3Days'', \<lparr>date = ''2025-01-13'', completed = Some (PBool False)\<rparr>)]"
    by (simp add: sample_note_def is_due_def get_completed_def sample_dates days_before_year_def
        days_before_month_def)
  have e: "noteCode sample_note = ''N1''" by (simp add: sample_note_def)
  from check_due_revisions_exact [OF a b] have
    "check_due_revisions True True (2025, 1, 12) [sample_note] =
           (concat (map (\<lambda>n.
              map (\<lambda>(k, r). (''Revision Reminder'',
                              noteCode n @ '' '' @ em_dash @ '' '' @ k @ '' due '' @ date r))
                (filter (\<lambda>(k, r). is_due (2025, 1, 12) r) (revisions n))) [sample_note]), None)"
    by blast
  then have "check_due_revisions True True (2025, 1, 12) [sample_note] =
       ([(''Revision Reminder'', ''N1 '' @ em_dash @ '' 3Days due 2025-01-13'')], None)"
    by (simp add: c e)
  moreover have "map (\<lambda>(k, r). strptime (date r)) (revisions sample_note)
     = [Inr (2025, 1, 11), Inr (2025, 1, 13), Inr (2025, 1, 17), Inr (2025, 2, 9)]"
    by (simp add: sample_note_def sample_dates)
  ultimately show ?thesis using b by blast
qed


section \<open>C8: loading the notes\<close>

text \<open>
  Where the data directory can be searched, \<open>load_notes\<close> never raises: it returns the
  empty collection when the file is absent, cannot be read, or does not parse, and the
  parsed collection otherwise.
\<close>

lemma load_notes_searchable:
  assumes "searchable st"
  shows "load_notes json_load st =
           Inr (case stored st of
                  Contents text \<Rightarrow> (case json_load text of Inl e \<Rightarrow> [] | Inr parsed \<Rightarrow> parsed)
                | _ \<Rightarrow> [])"
  using assms
  by (simp add: load_notes_def path_exists_def bind_result_def split: file_state.splits sum.splits)

lemma load_notes_error:
  assumes "load_notes json_load st = Inl e"
  shows "\<not> searchable st \<and> e = PermissionError"
  using assms
  by (auto simp: load_notes_def path_exists_def bind_result_def
      split: if_splits file_state.splits sum.splits)

text \<open>
  C8: the claim promises the empty collection for every load with the file absent. The
  code does not keep it where the data directory cannot be searched: the file is absent,
  \<^verbatim>\<open>DATA_FILE.exists()\<close> raises \<^verbatim>\<open>PermissionError\<close> before the \<^verbatim>\<open>try\<close> is
  entered, and \<open>load_notes\<close> raises instead of returning the empty collection. The same
  error from \<^verbatim>\<open>open\<close>, inside the \<^verbatim>\<open>try\<close>, is recovered.
\<close>

theorem load_notes_raises:
  "load_notes sample_json_load \<lparr>searchable = False, stored = Absent\<rparr> = Inl PermissionError"
  by (simp add: load_notes_def path_exists_def bind_result_def)


section \<open>C9: adding a note\<close>












end
